theory Spec2Isabelle
  imports Main "HOL-Library.Sublist"
begin

section \<open>Values of the JavaScript runtime that the handler builds\<close>

text \<open>
  Decimal rendering of a non-negative integer, as \<^verbatim>\<open>String(n)\<close>, template
  literals and \<^verbatim>\<open>'' + n\<close> produce it for the years, months, epoch
  milliseconds, array indices and UIDs of \<^verbatim>\<open>src/index.js\<close>.
\<close>

definition digit_char :: "nat \<Rightarrow> char" where
  "digit_char d = ''0123456789'' ! d"

fun toString :: "nat \<Rightarrow> string" where
  "toString n = (if n < 10 then [digit_char n] else toString (n div 10) @ [digit_char (n mod 10)])"

declare toString.simps [simp del]

text \<open>Objects such as \<^verbatim>\<open>{success:true}\<close>: an ordered list of fields.\<close>

datatype json =
    JBool bool
  | JString string
  | JNumber int
  | JObject "(string \<times> json) list"
  | JDriverResult nat

text \<open>
  Every fault a promise of the handler can reject with: a parameter that cannot be read
  (\<^verbatim>\<open>getParam\<close>), a mailbox call that fails (connect, lock, status, fetch), the error
  of line 153 for a missing bucket name, bytes that \<^verbatim>\<open>simpleParser\<close> rejects, a
  property read from undefined or null, a failed \<^verbatim>\<open>putObject\<close>, a failed flag, move or
  delete, and a failed logout. A failed query of \<^verbatim>\<open>save_email\<close> and a failed
  connection to the data store are handled where they occur and never become a fault.
\<close>

datatype error =
    ParameterNotFound
  | MailboxUnavailable
  | ConfigurationError
  | MalformedMessage
  | TypeError
  | StorageWriteError
  | MailboxMutationError
  | LogoutError

section \<open>What mailparser returns\<close>

record attachment =
  a_filename :: "string option"
  a_contentType :: string
  a_content :: string

text \<open>
  An address header: \<^verbatim>\<open>value\<close> is the list of mailboxes, of which only
  \<^verbatim>\<open>address\<close> is read (it is undefined for a group), \<^verbatim>\<open>text\<close> the
  header as one string.
\<close>

record address_object =
  addr_value :: "string option list"
  addr_text :: string

record mail =
  m_from :: "address_object option"
  m_to :: "address_object option"
  m_cc :: "address_object option"
  m_bcc :: "address_object option"
  m_subject :: "string option"
  m_textAsHtml :: "string option"
  m_html :: "string option"
  m_messageId :: "string option"
  m_inReplyTo :: "string option"
  m_attachments :: "attachment list"

text \<open>
  The object \<^verbatim>\<open>new Date()\<close> gives: the handler reads \<^verbatim>\<open>getFullYear()\<close>
  and \<^verbatim>\<open>getMonth()\<close>, which are in the time zone of the process; the UTC getters
  of the same instant are kept beside them.
\<close>

record js_date =
  getFullYear :: nat
  getMonth :: nat
  getUTCFullYear :: nat
  getUTCMonth :: nat

section \<open>Names and keys\<close>

text \<open>
  \<^verbatim>\<open>getFileExtension\<close>: undefined when the name has no dot, otherwise the match of
  \<^verbatim>\<open>/[^.]+$/\<close>, the longest dot-free suffix; when the name ends in a dot that
  match is null and reading \<^verbatim>\<open>[0]\<close> of it throws. An undefined name is
  matched as the string \<^verbatim>\<open>undefined\<close>, which has no dot.
\<close>

definition dotfree_suffix :: "string \<Rightarrow> string" where
  "dotfree_suffix s = rev (takeWhile (\<lambda>c. c \<noteq> CHR ''.'') (rev s))"

definition getFileExtension :: "string option \<Rightarrow> error + string option" where
  "getFileExtension filename =
     (case filename of
        None \<Rightarrow> Inr None
      | Some s \<Rightarrow>
          if CHR ''.'' \<in> set s
          then (if dotfree_suffix s = [] then Inl TypeError else Inr (Some (dotfree_suffix s)))
          else Inr None)"

text \<open>String concatenation with a value that may be undefined.\<close>

definition str_of :: "string option \<Rightarrow> string" where
  "str_of v = (case v of None \<Rightarrow> ''undefined'' | Some s \<Rightarrow> s)"

text \<open>\<^verbatim>\<open>s.split(c)[0]\<close>: the part of \<open>s\<close> before the first \<open>c\<close>.\<close>

definition split_first :: "char \<Rightarrow> string \<Rightarrow> string" where
  "split_first c s = takeWhile (\<lambda>x. x \<noteq> c) s"

text \<open>
  \<^verbatim>\<open>original.to.value[0].address\<close> and the like: a missing header, an empty
  list and (where a string method is called on it) an undefined address throw.
\<close>

definition first_mailbox :: "address_object option \<Rightarrow> error + string option" where
  "first_mailbox h =
     (case h of
        None \<Rightarrow> Inl TypeError
      | Some ao \<Rightarrow> (case addr_value ao of [] \<Rightarrow> Inl TypeError | a # _ \<Rightarrow> Inr a))"

definition folder_key :: "nat \<Rightarrow> nat \<Rightarrow> string \<Rightarrow> string" where
  "folder_key year month address =
     ''inbound/'' @ toString year @ ''/'' @ toString month @ ''/'' @ split_first CHR ''@'' address"

text \<open>Lines 145 to 147 and 171: the folder of a message, from the date read once per run.\<close>

definition message_folder :: "js_date \<Rightarrow> mail \<Rightarrow> error + string" where
  "message_folder date original =
     (case first_mailbox (m_to original) of
        Inl e \<Rightarrow> Inl e
      | Inr None \<Rightarrow> Inl TypeError
      | Inr (Some address) \<Rightarrow> Inr (folder_key (getFullYear date) (getMonth date + 1) address))"

text \<open>Line 172: \<^verbatim>\<open>original.messageId.split("@")[0].slice(1) + ".eml"\<close>.\<close>

definition eml_name :: "mail \<Rightarrow> error + string" where
  "eml_name original =
     (case m_messageId original of
        None \<Rightarrow> Inl TypeError
      | Some mid \<Rightarrow> Inr (drop 1 (split_first CHR ''@'' mid) @ ''.eml''))"

text \<open>
  Line 218: the name of the blob of attachment \<open>i\<close>, with \<open>now\<close> the value
  \<^verbatim>\<open>Date.now()\<close> returns in that callback.
\<close>

definition attachment_filename :: "nat \<Rightarrow> nat \<Rightarrow> attachment \<Rightarrow> error + string" where
  "attachment_filename now i a =
     (case getFileExtension (a_filename a) of
        Inl e \<Rightarrow> Inl e
      | Inr ext \<Rightarrow> Inr (toString now @ toString i @ ''.'' @ str_of ext))"

section \<open>The collaborators and what they answer\<close>

text \<open>
  One entry of the manifest (lines 189 to 194 and 224 to 229) and the record handed to
  \<^verbatim>\<open>save_email\<close> (lines 196 to 212 and 235).
\<close>

record asset =
  as_filename :: string
  as_filetype :: string
  as_original :: "string option"
  as_folder :: string

record email =
  e_from :: "string option"
  e_to :: "string option"
  e_subject :: "string option"
  e_body :: "string option"
  e_html :: "string option"
  e_messageId :: "string option"
  e_inReplyTo :: "string option"
  e_cc :: "string option"
  e_bcc :: "string option"
  e_attachments :: "asset list"

text \<open>
  A call that leaves the process, and with it (in an event) whether the collaborator
  acknowledged it. \<open>PutObject bucket key body contentType\<close> is \<^verbatim>\<open>putS3File\<close>,
  \<open>SaveEmail\<close> the stored procedure call of \<^verbatim>\<open>save_email\<close>; the three
  mailbox mutations carry the joined UIDs they are given.
\<close>

datatype call =
    GetImapConfig
  | Connect
  | GetMailboxLock
  | Status
  | GetMySqlConnection
  | DbConnect
  | Fetch
  | PutObject string string string string
  | SaveEmail email
  | MessageFlagsAdd string
  | MessageMove string
  | MessageDelete string
  | DbEnd
  | LockRelease
  | Logout

type_synonym event = "call \<times> bool"

text \<open>
  One message the fetch yields, with what the world answers while it is processed: the
  acknowledgement of the write of the \<^verbatim>\<open>.eml\<close> blob, the clock reading and the
  acknowledgement of the write in the callback of attachment \<open>i\<close>, and the result of
  the stored procedure (\<open>None\<close> when the query fails).
\<close>

record delivery =
  uid :: nat
  source :: string
  eml_put_ok :: bool
  date_now :: "nat \<Rightarrow> nat"
  att_put_ok :: "nat \<Rightarrow> bool"
  save_res :: "json option"

text \<open>
  Everything outside the handler that decides a run: which calls are acknowledged, what the
  status reports, the messages the fetch yields (\<open>fetch_ok\<close>: the stream ends without
  an error). \<open>simpleParser\<close> and \<open>JSON_stringify\<close> are the library functions of those
  names (\<open>None\<close>: the bytes do not parse); \<open>email_bucket\<close> is
  \<^verbatim>\<open>process.env.EMAIL_BUCKET\<close> and \<open>new_date\<close> the date of line 145.
\<close>

record world =
  imap_params_ok :: bool
  connect_ok :: bool
  lock_ok :: bool
  status_messages :: "nat option"
  mysql_params_ok :: bool
  db_connect_ok :: bool
  email_bucket :: "string option"
  new_date :: js_date
  simpleParser :: "string \<Rightarrow> mail option"
  fetch :: "delivery list"
  fetch_ok :: bool
  flags_ok :: bool
  move_ok :: bool
  delete_ok :: bool
  logout_ok :: bool
  JSON_stringify :: "json \<Rightarrow> string"

text \<open>
  The variables of the handler that outlive a statement, and the calls made so far, oldest
  first.
\<close>

record state =
  trace :: "event list"
  result :: json
  seen :: "nat list"

record response =
  statusCode :: nat
  headers :: "(string \<times> string) list"
  body :: string

datatype outcome = Returned response | Thrown error

definition emit :: "event \<Rightarrow> state \<Rightarrow> state" where
  "emit ev st = st\<lparr>trace := trace st @ [ev]\<rparr>"

section \<open>One message\<close>

text \<open>Lines 163 to 165: the outer envelope, then its first attachment as a message.\<close>

definition decode :: "world \<Rightarrow> delivery \<Rightarrow> error + (string \<times> mail)" where
  "decode w d =
     (case simpleParser w (source d) of
        None \<Rightarrow> Inl MalformedMessage
      | Some envelope \<Rightarrow>
          (case m_attachments envelope of
             [] \<Rightarrow> Inl TypeError
           | a0 # _ \<Rightarrow>
               (case simpleParser w (a_content a0) of
                  None \<Rightarrow> Inl MalformedMessage
                | Some original \<Rightarrow> Inr (a_content a0, original))))"

text \<open>
  Lines 216 to 231, the callback of \<^verbatim>\<open>map\<close>: it runs up to the call of
  \<^verbatim>\<open>putObject\<close> before the next callback starts, and its promise rejects when the
  extension throws or the write fails.
\<close>

definition publish_attachment ::
  "string \<Rightarrow> string \<Rightarrow> delivery \<Rightarrow> nat \<times> attachment \<Rightarrow> event list \<times> (error + asset)" where
  "publish_attachment bucket folder d ia =
     (case attachment_filename (date_now d (fst ia)) (fst ia) (snd ia) of
        Inl e \<Rightarrow> ([], Inl e)
      | Inr filename \<Rightarrow>
          ([(PutObject bucket (folder @ ''/'' @ filename) (a_content (snd ia)) (a_contentType (snd ia)),
             att_put_ok d (fst ia))],
           if att_put_ok d (fst ia)
           then Inr \<lparr>as_filename = filename, as_filetype = a_contentType (snd ia),
                     as_original = a_filename (snd ia), as_folder = folder\<rparr>
           else Inl StorageWriteError))"

text \<open>
  \<^verbatim>\<open>Promise.all\<close>: every callback has issued its call; the result is the list of
  values, or a rejection when one of them rejected. Which of several rejections it carries
  depends on the order they settle in; the one of least index is kept here.
\<close>

fun promise_all :: "(event list \<times> (error + 'a)) list \<Rightarrow> event list \<times> (error + 'a list)" where
  "promise_all [] = ([], Inr [])"
| "promise_all (p # ps) =
     (fst p @ fst (promise_all ps),
      case snd p of
        Inl e \<Rightarrow> Inl e
      | Inr x \<Rightarrow> (case snd (promise_all ps) of Inl e \<Rightarrow> Inl e | Inr xs \<Rightarrow> Inr (x # xs)))"

definition eml_asset :: "string \<Rightarrow> string \<Rightarrow> asset" where
  "eml_asset folder eml =
     \<lparr>as_filename = eml, as_filetype = ''application/octet-stream'',
      as_original = Some (''ORIGINAL_MESSAGE_'' @ eml), as_folder = folder\<rparr>"

definition build_email :: "mail \<Rightarrow> string option \<Rightarrow> asset list \<Rightarrow> email" where
  "build_email original sender assets =
     \<lparr>e_from = sender,
      e_to = (case first_mailbox (m_to original) of Inl _ \<Rightarrow> None | Inr a \<Rightarrow> a),
      e_subject = m_subject original,
      e_body = m_textAsHtml original,
      e_html = m_html original,
      e_messageId = m_messageId original,
      e_inReplyTo = m_inReplyTo original,
      e_cc = map_option addr_text (m_cc original),
      e_bcc = map_option addr_text (m_bcc original),
      e_attachments = assets\<rparr>"

text \<open>
  Lines 171 to 235: the writes of one message, in the order they are issued, and the
  record to persist when none of them failed.
\<close>

definition publish :: "world \<Rightarrow> string \<Rightarrow> delivery \<Rightarrow> string \<Rightarrow> mail \<Rightarrow> event list \<times> (error + email)" where
  "publish w bucket d content original =
     (case message_folder (new_date w) original of
        Inl e \<Rightarrow> ([], Inl e)
      | Inr folder \<Rightarrow>
     (case eml_name original of
        Inl e \<Rightarrow> ([], Inl e)
      | Inr eml \<Rightarrow>
     (let put_eml = (PutObject bucket (folder @ ''/'' @ eml) content ''application/octet-stream'',
                     eml_put_ok d)
      in if \<not> eml_put_ok d then ([put_eml], Inl StorageWriteError)
         else
     (case first_mailbox (m_from original) of
        Inl e \<Rightarrow> ([put_eml], Inl e)
      | Inr sender \<Rightarrow>
     (let uploads = promise_all (map (publish_attachment bucket folder d)
                                     (enumerate 0 (m_attachments original)))
      in (put_eml # fst uploads,
          case snd uploads of
            Inl e \<Rightarrow> Inl e
          | Inr assets \<Rightarrow> Inr (build_email original sender (assets @ [eml_asset folder eml]))))))))"

text \<open>
  Lines 163 to 239, one round of the loop. The rejection handler of line 237 only logs,
  so the push of line 239 follows a failed query as it follows a successful one.
\<close>

definition process_message :: "world \<Rightarrow> string \<Rightarrow> delivery \<Rightarrow> state \<Rightarrow> error option \<times> state" where
  "process_message w bucket d st =
     (case decode w d of
        Inl e \<Rightarrow> (Some e, st)
      | Inr co \<Rightarrow>
          if uid d \<in> set (seen st) then (None, st)
          else
            (case publish w bucket d (fst co) (snd co) of
               (evs, Inl e) \<Rightarrow> (Some e, st\<lparr>trace := trace st @ evs\<rparr>)
             | (evs, Inr em) \<Rightarrow>
                 (None,
                  st\<lparr>trace := trace st @ evs @ [(SaveEmail em, save_res d \<noteq> None)],
                     result := (case save_res d of None \<Rightarrow> result st | Some res \<Rightarrow> res),
                     seen := seen st @ [uid d]\<rparr>)))"

section \<open>The run\<close>

fun for_await :: "world \<Rightarrow> string \<Rightarrow> delivery list \<Rightarrow> state \<Rightarrow> error option \<times> state" where
  "for_await w bucket [] st = (None, st)"
| "for_await w bucket (d # ds) st =
     (case process_message w bucket d st of
        (Some e, st') \<Rightarrow> (Some e, st')
      | (None, st') \<Rightarrow> for_await w bucket ds st')"

text \<open>\<^verbatim>\<open>seen.join()\<close>.\<close>

fun join_uids :: "nat list \<Rightarrow> string" where
  "join_uids [] = []"
| "join_uids [u] = toString u"
| "join_uids (u # v # us) = toString u @ '','' @ join_uids (v # us)"

text \<open>Lines 246 to 251.\<close>

definition finalize :: "world \<Rightarrow> state \<Rightarrow> error option \<times> state" where
  "finalize w st =
     (if seen st = [] then (None, st)
      else
        (let s = join_uids (seen st);
             st1 = emit (MessageFlagsAdd s, flags_ok w) st
         in if \<not> flags_ok w then (Some MailboxMutationError, st1)
            else
              (let st2 = emit (MessageMove s, move_ok w) st1
               in if \<not> move_ok w then (Some MailboxMutationError, st2)
                  else
                    (let st3 = emit (MessageDelete s, delete_ok w) st2
                     in if \<not> delete_ok w then (Some MailboxMutationError, st3)
                        else (None, st3)))))"

definition result_success :: json where
  "result_success = JObject [(''success'', JBool True)]"

definition result_failure :: "string \<Rightarrow> json" where
  "result_failure reason = JObject [(''success'', JBool False), (''error'', JString reason)]"

text \<open>
  Lines 157 to 258, reached with a bucket name and a data-store connection: the loop over
  the fetched messages, the cleanup of the mailbox and the result of a run that got this
  far.
\<close>

definition process_inbox :: "world \<Rightarrow> string \<Rightarrow> state \<Rightarrow> error option \<times> state" where
  "process_inbox w bucket st =
     (case for_await w bucket (fetch w) (emit (Fetch, fetch_ok w) (st\<lparr>seen := []\<rparr>)) of
        (Some e, st1) \<Rightarrow> (Some e, st1)
      | (None, st1) \<Rightarrow>
          if \<not> fetch_ok w then (Some MailboxUnavailable, st1)
          else
            (case finalize w st1 of
               (Some e, st2) \<Rightarrow> (Some e, st2)
             | (None, st2) \<Rightarrow> (None, emit (DbEnd, True) (st2\<lparr>result := result_success\<rparr>))))"

text \<open>Lines 134 to 267, the body of \<^verbatim>\<open>try\<close>.\<close>

definition try_block :: "world \<Rightarrow> state \<Rightarrow> error option \<times> state" where
  "try_block w st =
     (let st1 = emit (Status, status_messages w \<noteq> None) st
      in case status_messages w of
           None \<Rightarrow> (Some MailboxUnavailable, st1)
         | Some messages \<Rightarrow>
             if messages > 0 then
               (let st2 = emit (GetMySqlConnection, mysql_params_ok w) st1
                in if \<not> mysql_params_ok w then (Some ParameterNotFound, st2)
                   else
                     (let st3 = emit (DbConnect, db_connect_ok w) st2
                      in if db_connect_ok w then
                           (case email_bucket w of
                              None \<Rightarrow> (Some ConfigurationError, st3)
                            | Some bucket \<Rightarrow>
                                if bucket = [] then (Some ConfigurationError, st3)
                                else process_inbox w bucket st3)
                         else
                           (None, st3\<lparr>result := result_failure ''Could not connect to MySQL database''\<rparr>)))
             else (None, st1\<lparr>result := result_failure ''No messages in INBOX''\<rparr>))"

text \<open>
  Lines 109 to 286. Nothing catches: a fault inside \<^verbatim>\<open>try\<close> passes through
  \<^verbatim>\<open>finally\<close> and rejects the promise the handler returned.
\<close>

definition handler :: "world \<Rightarrow> outcome \<times> state" where
  "handler w =
     (let st0 = \<lparr>trace = [(GetImapConfig, imap_params_ok w)],
                 result = JObject [(''failed'', JBool True)], seen = []\<rparr>
      in if \<not> imap_params_ok w then (Thrown ParameterNotFound, st0)
         else
           (let st1 = emit (Connect, connect_ok w) st0
            in if \<not> connect_ok w then (Thrown MailboxUnavailable, st1)
               else
                 (let st2 = emit (GetMailboxLock, lock_ok w) st1
                  in if \<not> lock_ok w then (Thrown MailboxUnavailable, st2)
                     else
                       (case try_block w st2 of
                          (Some e, st3) \<Rightarrow> (Thrown e, emit (LockRelease, True) st3)
                        | (None, st3) \<Rightarrow>
                            (let st4 = emit (Logout, logout_ok w) (emit (LockRelease, True) st3)
                             in if \<not> logout_ok w then (Thrown LogoutError, st4)
                                else
                                  (Returned \<lparr>statusCode = 200,
                                             headers = [(''Access-Control-Allow-Origin'', ''*'')],
                                             body = JSON_stringify w (result st4)\<rparr>,
                                   st4))))))"

section \<open>Reading a run\<close>

fun is_storage_write :: "call \<Rightarrow> bool" where
  "is_storage_write (PutObject bucket key content contentType) = True"
| "is_storage_write c = False"

fun is_data_store_call :: "call \<Rightarrow> bool" where
  "is_data_store_call GetMySqlConnection = True"
| "is_data_store_call DbConnect = True"
| "is_data_store_call (SaveEmail em) = True"
| "is_data_store_call DbEnd = True"
| "is_data_store_call c = False"

fun is_mutation :: "call \<Rightarrow> bool" where
  "is_mutation (MessageFlagsAdd s) = True"
| "is_mutation (MessageMove s) = True"
| "is_mutation (MessageDelete s) = True"
| "is_mutation c = False"

text \<open>What the loop itself issues: blob writes and the stored procedure call.\<close>

definition loop_call :: "call \<Rightarrow> bool" where
  "loop_call c = (is_storage_write c \<or> (\<exists>em. c = SaveEmail em))"

text \<open>The mailbox mutations of a run, in the order they were issued.\<close>

definition mutations :: "state \<Rightarrow> event list" where
  "mutations st = filter (\<lambda>ev. is_mutation (fst ev)) (trace st)"

text \<open>
  The state at line 131, with the lock obtained; at line 145, with the data store connected;
  and at line 161, when the first message is awaited.
\<close>

definition lock_held :: state where
  "lock_held = \<lparr>trace = [(GetImapConfig, True), (Connect, True), (GetMailboxLock, True)],
                 result = JObject [(''failed'', JBool True)], seen = []\<rparr>"

definition connected :: state where
  "connected = lock_held\<lparr>trace := trace lock_held @
                 [(Status, True), (GetMySqlConnection, True), (DbConnect, True)]\<rparr>"

definition fetching :: "world \<Rightarrow> state" where
  "fetching w = emit (Fetch, fetch_ok w) connected"



text \<open>The key of the blob an entry of the manifest names.\<close>

definition asset_key :: "asset \<Rightarrow> string" where
  "asset_key a = as_folder a @ ''/'' @ as_filename a"

text \<open>
  A trace holds the full path of a message when, for the original the message decodes to,
  it has the acknowledged writes of its blobs (one for the \<^verbatim>\<open>.eml\<close>, one per
  attachment, covering every entry of the manifest) and right after them the call that
  persists its record, acknowledged or not as the stored procedure answered.
\<close>

definition written_then_saved :: "world \<Rightarrow> string \<Rightarrow> delivery \<Rightarrow> event list \<Rightarrow> bool" where
  "written_then_saved w bucket d tr =
     (\<exists>content original evs em before after.
        decode w d = Inr (content, original) \<and>
        tr = before @ evs @ (SaveEmail em, save_res d \<noteq> None) # after \<and>
        length evs = Suc (length (m_attachments original)) \<and>
        list_all (\<lambda>ev. is_storage_write (fst ev) \<and> snd ev) evs \<and>
        length (e_attachments em) = Suc (length (m_attachments original)) \<and>
        list_all (\<lambda>a. \<exists>blob ct. (PutObject bucket (asset_key a) blob ct, True) \<in> set evs)
          (e_attachments em))"

text \<open>A field of a result object, undefined when it has none of that name.\<close>

definition field :: "json \<Rightarrow> string \<Rightarrow> json option" where
  "field j k = (case j of JObject fs \<Rightarrow> map_of fs k | _ \<Rightarrow> None)"

text \<open>The same world with other answers of the stored procedure.\<close>

definition with_save :: "(delivery \<Rightarrow> json option) \<Rightarrow> world \<Rightarrow> world" where
  "with_save f w = w\<lparr>fetch := map (\<lambda>d. d\<lparr>save_res := f d\<rparr>) (fetch w)\<rparr>"

section \<open>A mailbox to run on\<close>

text \<open>
  The scenario of the specification: a forwarded message to \<^verbatim>\<open>alice@example.com\<close>
  with PDF attachments, processed in March 2025.
\<close>

definition pdf :: attachment where
  "pdf = \<lparr>a_filename = Some ''report.pdf'', a_contentType = ''application/pdf'', a_content = ''%PDF''\<rparr>"

definition alice_mail :: mail where
  "alice_mail =
     \<lparr>m_from = Some \<lparr>addr_value = [Some ''bob@example.org''], addr_text = ''bob@example.org''\<rparr>,
      m_to = Some \<lparr>addr_value = [Some ''alice@example.com''], addr_text = ''alice@example.com''\<rparr>,
      m_cc = None, m_bcc = None, m_subject = Some ''Hello'', m_textAsHtml = None, m_html = None,
      m_messageId = Some ''<m1@example.org>'', m_inReplyTo = None, m_attachments = [pdf, pdf]\<rparr>"

definition envelope :: mail where
  "envelope =
     \<lparr>m_from = None, m_to = None, m_cc = None, m_bcc = None, m_subject = None,
      m_textAsHtml = None, m_html = None, m_messageId = None, m_inReplyTo = None,
      m_attachments =
        [\<lparr>a_filename = None, a_contentType = ''message/rfc822'', a_content = ''EML''\<rparr>]\<rparr>"

definition parser :: "string \<Rightarrow> mail option" where
  "parser s = (if s = ''RAW'' then Some envelope else if s = ''EML'' then Some alice_mail else None)"

text \<open>What \<^verbatim>\<open>JSON.stringify\<close> gives on the three objects a run can end with.\<close>

definition stringify :: "json \<Rightarrow> string" where
  "stringify j =
     (if j = result_success then ''{\"success\":true}''
      else if j = result_failure ''No messages in INBOX''
      then ''{\"success\":false,\"error\":\"No messages in INBOX\"}''
      else if j = result_failure ''Could not connect to MySQL database''
      then ''{\"success\":false,\"error\":\"Could not connect to MySQL database\"}''
      else ''{}'')"

definition march :: js_date where
  "march = \<lparr>getFullYear = 2025, getMonth = 2, getUTCFullYear = 2025, getUTCMonth = 2\<rparr>"


definition msg :: "nat \<Rightarrow> delivery" where
  "msg u = \<lparr>uid = u, source = ''RAW'', eml_put_ok = True, date_now = (\<lambda>i. 1740787200000),
            att_put_ok = (\<lambda>i. True), save_res = Some (JDriverResult 0)\<rparr>"

definition inbox :: "delivery list \<Rightarrow> world" where
  "inbox ds =
     \<lparr>imap_params_ok = True, connect_ok = True, lock_ok = True, status_messages = Some (length ds),
      mysql_params_ok = True, db_connect_ok = True, email_bucket = Some ''emails'',
      new_date = march, simpleParser = parser, fetch = ds, fetch_ok = True,
      flags_ok = True, move_ok = True, delete_ok = True, logout_ok = True,
      JSON_stringify = stringify\<rparr>"





section \<open>Decimal strings and extensions\<close>








lemma dotfree_suffix_no_dot: "CHR ''.'' \<notin> set (dotfree_suffix s)"
  unfolding dotfree_suffix_def using set_takeWhileD by fastforce

lemma extension_no_dot: "getFileExtension fn = Inr ext \<Longrightarrow> CHR ''.'' \<notin> set (str_of ext)"
  by (auto simp: getFileExtension_def str_of_def dotfree_suffix_no_dot split: option.splits if_splits)



section \<open>The paths through the handler\<close>

lemma handler_cases [consumes 1, case_names no_lock fault finished]:
  assumes "handler w = (out, st)"
  obtains e where "out = Thrown e" and "(GetMailboxLock, True) \<notin> set (trace st)"
      and "\<forall>ev\<in>set (trace st). fst ev \<in> {GetImapConfig, Connect, GetMailboxLock}"
      and "seen st = []" and "e = ParameterNotFound \<or> e = MailboxUnavailable"
  | e st' where "try_block w lock_held = (Some e, st')" and "out = Thrown e"
      and "st = emit (LockRelease, True) st'"
  | st' where "try_block w lock_held = (None, st')"
      and "st = emit (Logout, logout_ok w) (emit (LockRelease, True) st')"
      and "out = (if logout_ok w
                  then Returned \<lparr>statusCode = 200, headers = [(''Access-Control-Allow-Origin'', ''*'')],
                                 body = JSON_stringify w (result st')\<rparr>
                  else Thrown LogoutError)"
proof (cases "imap_params_ok w \<and> connect_ok w \<and> lock_ok w")
  case False
  with assms have "out = Thrown ParameterNotFound \<or> out = Thrown MailboxUnavailable"
    and "(GetMailboxLock, True) \<notin> set (trace st)"
    and "\<forall>ev\<in>set (trace st). fst ev \<in> {GetImapConfig, Connect, GetMailboxLock}" and "seen st = []"
    by (auto simp: handler_def Let_def emit_def split: if_splits)
  with that(1) show thesis by blast
next
  case True
  obtain r st' where t: "try_block w lock_held = (r, st')" by (cases "try_block w lock_held")
  show thesis
  proof (cases r)
    case None
    with True t assms that(3) [of st'] show thesis
      by (auto simp: handler_def Let_def emit_def lock_held_def split: if_splits)
  next
    case (Some e)
    with True t assms that(2) [of e st'] show thesis
      by (auto simp: handler_def Let_def emit_def lock_held_def)
  qed
qed

lemma try_block_cases [consumes 1, case_names status_failed no_messages no_params db_unreachable no_bucket inbox]:
  assumes "try_block w lock_held = (r, st)"
  obtains "status_messages w = None" and "r = Some MailboxUnavailable"
      and "st = emit (Status, False) lock_held"
  | "status_messages w = Some 0" and "r = None"
      and "st = (emit (Status, True) lock_held)\<lparr>result := result_failure ''No messages in INBOX''\<rparr>"
  | n where "status_messages w = Some n" and "n > 0" and "\<not> mysql_params_ok w"
      and "r = Some ParameterNotFound"
      and "st = emit (GetMySqlConnection, False) (emit (Status, True) lock_held)"
  | n where "status_messages w = Some n" and "n > 0" and "mysql_params_ok w" and "\<not> db_connect_ok w"
      and "r = None"
      and "st = (emit (DbConnect, False) (emit (GetMySqlConnection, True) (emit (Status, True) lock_held)))
                  \<lparr>result := result_failure ''Could not connect to MySQL database''\<rparr>"
  | n where "status_messages w = Some n" and "n > 0" and "mysql_params_ok w" and "db_connect_ok w"
      and "email_bucket w = None \<or> email_bucket w = Some []"
      and "r = Some ConfigurationError" and "st = connected"
  | n bucket where "status_messages w = Some n" and "n > 0" and "mysql_params_ok w" and "db_connect_ok w"
      and "email_bucket w = Some bucket" and "bucket \<noteq> []"
      and "process_inbox w bucket connected = (r, st)"
  using assms
  by (auto simp: try_block_def Let_def emit_def connected_def split: if_splits option.splits)

section \<open>The writes of one message\<close>

lemma promise_all_events: "fst (promise_all ps) = concat (map fst ps)"
  by (induction ps) simp_all

lemma promise_all_values: "snd (promise_all ps) = Inr xs \<Longrightarrow> map snd ps = map Inr xs"
  by (induction ps arbitrary: xs) (auto split: sum.splits)

lemma publish_attachment_write:
  "ev \<in> set (fst (publish_attachment bucket folder d ia)) \<Longrightarrow> is_storage_write (fst ev)"
  by (auto simp: publish_attachment_def split: sum.splits)

lemma publish_attachment_asset:
  assumes "snd (publish_attachment bucket folder d ia) = Inr a"
  shows "fst (publish_attachment bucket folder d ia) =
           [(PutObject bucket (asset_key a) (a_content (snd ia)) (a_contentType (snd ia)), True)]"
    and "as_folder a = folder"
    and "attachment_filename (date_now d (fst ia)) (fst ia) (snd ia) = Inr (as_filename a)"
  using assms
  by (auto simp: publish_attachment_def asset_key_def split: sum.splits if_splits)

lemma uploads_acknowledged:
  assumes "snd (promise_all (map (publish_attachment bucket folder d) ias)) = Inr assets"
  shows "fst (promise_all (map (publish_attachment bucket folder d) ias)) =
           map (\<lambda>(a, ia). (PutObject bucket (asset_key a) (a_content (snd ia)) (a_contentType (snd ia)), True))
               (zip assets ias)"
    and "length assets = length ias"
  using assms
proof (induction ias arbitrary: assets)
  case Nil
  { case 1 then show ?case by simp }
  { case 2 then show ?case by simp }
next
  case (Cons ia ias)
  { case 1
    then obtain a rest where a: "snd (publish_attachment bucket folder d ia) = Inr a"
      and rest: "snd (promise_all (map (publish_attachment bucket folder d) ias)) = Inr rest"
      and assets: "assets = a # rest"
      by (auto split: sum.splits)
    show ?case using Cons.IH(1) [OF rest] publish_attachment_asset(1) [OF a] assets by simp }
  { case 2
    then obtain a rest where a: "snd (publish_attachment bucket folder d ia) = Inr a"
      and rest: "snd (promise_all (map (publish_attachment bucket folder d) ias)) = Inr rest"
      and assets: "assets = a # rest"
      by (auto split: sum.splits)
    show ?case using Cons.IH(2) [OF rest] assets by simp }
qed

lemma publish_writes:
  assumes "publish w bucket d content original = (evs, r)" and "ev \<in> set evs"
  shows "is_storage_write (fst ev)"
  using assms
  by (auto simp: publish_def Let_def promise_all_events split: sum.splits if_splits
           dest: publish_attachment_write)

lemma publish_record:
  assumes "publish w bucket d content original = (evs, Inr em)"
  shows "\<forall>ev\<in>set evs. snd ev"
    and "length evs = Suc (length (m_attachments original))"
    and "length (e_attachments em) = Suc (length (m_attachments original))"
    and "\<forall>a\<in>set (e_attachments em). \<exists>blob ct. (PutObject bucket (asset_key a) blob ct, True) \<in> set evs"
proof -
  let ?ias = "enumerate 0 (m_attachments original)"
  from assms obtain folder eml sender assets where
    folder: "message_folder (new_date w) original = Inr folder"
    and eml: "eml_name original = Inr eml"
    and up: "snd (promise_all (map (publish_attachment bucket folder d) ?ias)) = Inr assets"
    and evs: "evs = (PutObject bucket (folder @ ''/'' @ eml) content ''application/octet-stream'', True)
                # fst (promise_all (map (publish_attachment bucket folder d) ?ias))"
    and em: "em = build_email original sender (assets @ [eml_asset folder eml])"
    by (auto simp: publish_def Let_def split: sum.splits if_splits)
  note ack = uploads_acknowledged [OF up]
  show "\<forall>ev\<in>set evs. snd ev" unfolding evs ack(1) by auto
  show "length evs = Suc (length (m_attachments original))" unfolding evs ack(1) using ack(2) by simp
  show "length (e_attachments em) = Suc (length (m_attachments original))"
    unfolding em build_email_def using ack(2) by simp
  show "\<forall>a\<in>set (e_attachments em). \<exists>blob ct. (PutObject bucket (asset_key a) blob ct, True) \<in> set evs"
  proof
    fix a assume "a \<in> set (e_attachments em)"
    then consider "a \<in> set assets" | "a = eml_asset folder eml"
      unfolding em build_email_def by auto
    then show "\<exists>blob ct. (PutObject bucket (asset_key a) blob ct, True) \<in> set evs"
    proof cases
      case 1
      then obtain i where i: "i < length assets" and a: "a = assets ! i" by (metis in_set_conv_nth)
      with ack(2) have "(a, ?ias ! i) \<in> set (zip assets ?ias)"
        by (metis in_set_zip fst_conv snd_conv)
      then have "(PutObject bucket (asset_key a) (a_content (snd (?ias ! i))) (a_contentType (snd (?ias ! i))), True)
                   \<in> set (fst (promise_all (map (publish_attachment bucket folder d) ?ias)))"
        unfolding ack(1) by force
      then show ?thesis unfolding evs by auto
    next
      case 2
      then show ?thesis unfolding evs by (auto simp: eml_asset_def asset_key_def)
    qed
  qed
qed

lemma process_message_cases [consumes 1, case_names skipped fault pushed]:
  assumes "process_message w bucket d st = (r, st')"
  obtains "r = None" and "st' = st"
      and "uid d \<in> set (seen st) \<and> (\<exists>co. decode w d = Inr co)"
  | e evs where "r = Some e" and "st' = st\<lparr>trace := trace st @ evs\<rparr>"
      and "\<forall>ev\<in>set evs. is_storage_write (fst ev)"
  | content original evs em where "r = None" and "uid d \<notin> set (seen st)"
      and "decode w d = Inr (content, original)"
      and "publish w bucket d content original = (evs, Inr em)"
      and "st' = st\<lparr>trace := trace st @ evs @ [(SaveEmail em, save_res d \<noteq> None)],
                     result := (case save_res d of None \<Rightarrow> result st | Some res \<Rightarrow> res),
                     seen := seen st @ [uid d]\<rparr>"
proof (cases "decode w d")
  case (Inl e)
  with assms have "r = Some e" "st' = st\<lparr>trace := trace st @ []\<rparr>" by (auto simp: process_message_def)
  with that(2) [of e "[]"] show thesis by simp
next
  case (Inr co)
  show thesis
  proof (cases "uid d \<in> set (seen st)")
    case True
    with Inr assms that(1) show thesis by (auto simp: process_message_def)
  next
    case False
    obtain evs p where p: "publish w bucket d (fst co) (snd co) = (evs, p)"
      by (cases "publish w bucket d (fst co) (snd co)")
    show thesis
    proof (cases p)
      case (Inl e)
      with Inr False p assms have "r = Some e" "st' = st\<lparr>trace := trace st @ evs\<rparr>"
        by (auto simp: process_message_def)
      moreover have "\<forall>ev\<in>set evs. is_storage_write (fst ev)" using publish_writes [OF p] by blast
      ultimately show thesis using that(2) by blast
    next
      case (Inr em)
      with \<open>decode w d = Inr co\<close> False p assms that(3) [of "fst co" "snd co" evs em]
      show thesis by (auto simp: process_message_def)
    qed
  qed
qed

section \<open>The paths of a run that reaches the loop\<close>

lemma handler_paths [consumes 1, case_names outside loop_fault fetch_fault cleanup_fault completed]:
  assumes "handler w = (out, st)"
  obtains "seen st = []"
      and "\<forall>ev\<in>set (trace st). fst ev \<in> {GetImapConfig, Connect, GetMailboxLock, Status,
              GetMySqlConnection, DbConnect, LockRelease, Logout}"
  | bucket e stl where "email_bucket w = Some bucket" and "bucket \<noteq> []"
      and "for_await w bucket (fetch w) (fetching w) = (Some e, stl)"
      and "out = Thrown e" and "st = emit (LockRelease, True) stl"
  | bucket stl where "email_bucket w = Some bucket" and "bucket \<noteq> []"
      and "for_await w bucket (fetch w) (fetching w) = (None, stl)"
      and "\<not> fetch_ok w"
      and "out = Thrown MailboxUnavailable" and "st = emit (LockRelease, True) stl"
  | bucket stl e stf where "email_bucket w = Some bucket" and "bucket \<noteq> []"
      and "for_await w bucket (fetch w) (fetching w) = (None, stl)"
      and "fetch_ok w" and "finalize w stl = (Some e, stf)"
      and "out = Thrown e" and "st = emit (LockRelease, True) stf"
  | bucket stl stf where "email_bucket w = Some bucket" and "bucket \<noteq> []"
      and "for_await w bucket (fetch w) (fetching w) = (None, stl)"
      and "fetch_ok w" and "finalize w stl = (None, stf)"
      and "st = emit (Logout, logout_ok w) (emit (LockRelease, True)
                  (emit (DbEnd, True) (stf\<lparr>result := result_success\<rparr>)))"
      and "out = (if logout_ok w
                  then Returned \<lparr>statusCode = 200, headers = [(''Access-Control-Allow-Origin'', ''*'')],
                                 body = JSON_stringify w result_success\<rparr>
                  else Thrown LogoutError)"
proof -
  note paths = that
  have via_inbox: thesis if pi: "process_inbox w bucket connected = (r, st')"
    and b: "email_bucket w = Some bucket" "bucket \<noteq> []"
    and fin: "(\<exists>e. r = Some e \<and> out = Thrown e \<and> st = emit (LockRelease, True) st') \<or>
              (r = None \<and> st = emit (Logout, logout_ok w) (emit (LockRelease, True) st') \<and>
               out = (if logout_ok w
                  then Returned \<lparr>statusCode = 200, headers = [(''Access-Control-Allow-Origin'', ''*'')],
                                 body = JSON_stringify w (result st')\<rparr>
                  else Thrown LogoutError))"
    for bucket r st'
  proof -
    have c: "connected\<lparr>seen := []\<rparr> = connected" by (simp add: connected_def lock_held_def)
    obtain rl stl where l: "for_await w bucket (fetch w) (fetching w) = (rl, stl)"
      by (cases "for_await w bucket (fetch w) (fetching w)")
    show thesis
    proof (cases rl)
      case (Some e)
      with l pi c have "r = Some e" "st' = stl" by (auto simp: process_inbox_def fetching_def)
      with paths(2) [OF b] l Some fin show thesis by auto
    next
      case None
      note rl = this
      show thesis
      proof (cases "fetch_ok w")
        case False
        with l pi c rl have "r = Some MailboxUnavailable" "st' = stl"
          by (auto simp: process_inbox_def fetching_def)
        with paths(3) [OF b] l rl False fin show thesis by auto
      next
        case True
        obtain rf stf where f: "finalize w stl = (rf, stf)" by (cases "finalize w stl")
        show thesis
        proof (cases rf)
          case (Some e)
          with l pi c rl True f have "r = Some e" "st' = stf"
            by (auto simp: process_inbox_def fetching_def)
          with paths(4) [OF b] l rl True f Some fin show thesis by auto
        next
          case None
          with l pi c rl True f have "r = None" "st' = emit (DbEnd, True) (stf\<lparr>result := result_success\<rparr>)"
            by (auto simp: process_inbox_def fetching_def)
          with paths(5) [OF b] l rl True f None fin show thesis by (auto simp: emit_def)
        qed
      qed
    qed
  qed
  from assms show thesis
  proof (cases rule: handler_cases)
    case (no_lock e)
    with paths(1) show thesis by auto
  next
    case (fault e st')
    from fault(1) show thesis
    proof (cases rule: try_block_cases)
      case (inbox n bucket)
      show thesis
        by (rule via_inbox [OF inbox(7) inbox(5) inbox(6)]) (use fault in auto)
    qed (use fault paths(1) in \<open>auto simp: emit_def lock_held_def connected_def\<close>)
  next
    case (finished st')
    from finished(1) show thesis
    proof (cases rule: try_block_cases)
      case (inbox n bucket)
      show thesis
        by (rule via_inbox [OF inbox(7) inbox(5) inbox(6)]) (use finished in auto)
    qed (use finished paths(1) in \<open>auto simp: emit_def lock_held_def connected_def\<close>)
  qed
qed

section \<open>The loop and the cleanup\<close>

lemma process_message_trace:
  assumes "process_message w bucket d st = (r, st')"
  shows "\<exists>evs. trace st' = trace st @ evs \<and> (\<forall>ev\<in>set evs. loop_call (fst ev))"
  using assms
proof (cases rule: process_message_cases)
  case skipped
  then show ?thesis by simp
next
  case (fault e evs)
  then show ?thesis by (auto simp: loop_call_def)
next
  case (pushed content original evs em)
  from publish_writes [OF pushed(4)] have "\<forall>ev\<in>set evs. loop_call (fst ev)"
    by (auto simp: loop_call_def)
  with pushed(5) show ?thesis
    by (intro exI [of _ "evs @ [(SaveEmail em, save_res d \<noteq> None)]"]) (auto simp: loop_call_def)
qed

lemma for_await_trace:
  assumes "for_await w bucket ds st = (r, st')"
  shows "\<exists>evs. trace st' = trace st @ evs \<and> (\<forall>ev\<in>set evs. loop_call (fst ev))"
  using assms
proof (induction ds arbitrary: st)
  case Nil
  then show ?case by simp
next
  case (Cons d ds)
  obtain r1 st1 where p: "process_message w bucket d st = (r1, st1)"
    by (cases "process_message w bucket d st")
  from process_message_trace [OF p] obtain m1 where
    m1: "trace st1 = trace st @ m1" "\<forall>ev\<in>set m1. loop_call (fst ev)" by blast
  show ?case
  proof (cases r1)
    case (Some e)
    with p Cons.prems m1 show ?thesis by auto
  next
    case None
    with p Cons.prems have "for_await w bucket ds st1 = (r, st')" by simp
    from Cons.IH [OF this] obtain m2 where
      "trace st' = trace st1 @ m2" "\<forall>ev\<in>set m2. loop_call (fst ev)" by blast
    with m1 show ?thesis by (intro exI [of _ "m1 @ m2"]) auto
  qed
qed

lemma for_await_seen:
  assumes "for_await w bucket ds st = (r, st')" and "u \<in> set (seen st')" and "u \<notin> set (seen st)"
  shows "\<exists>d content original evs em pre post.
           d \<in> set ds \<and> uid d = u \<and> decode w d = Inr (content, original) \<and>
           publish w bucket d content original = (evs, Inr em) \<and>
           trace st' = pre @ evs @ (SaveEmail em, save_res d \<noteq> None) # post"
  using assms
proof (induction ds arbitrary: st)
  case Nil
  then show ?case by simp
next
  case (Cons d ds)
  obtain r1 st1 where p: "process_message w bucket d st = (r1, st1)"
    by (cases "process_message w bucket d st")
  from p show ?case
  proof (cases rule: process_message_cases)
    case skipped
    with p Cons.prems have "for_await w bucket ds st = (r, st')" by simp
    from Cons.IH [OF this Cons.prems(2,3)] obtain d' content original evs em pre post where
      "d' \<in> set ds" and found: "uid d' = u" "decode w d' = Inr (content, original)"
        "publish w bucket d' content original = (evs, Inr em)"
        "trace st' = pre @ evs @ (SaveEmail em, save_res d' \<noteq> None) # post"
      by blast
    then have "d' \<in> set (d # ds)" by simp
    with found show ?thesis by blast
  next
    case (fault e evs)
    with p Cons.prems show ?thesis by auto
  next
    case (pushed content original evs em)
    with p Cons.prems have rest: "for_await w bucket ds st1 = (r, st')" by simp
    show ?thesis
    proof (cases "u = uid d")
      case True
      from for_await_trace [OF rest] obtain post where "trace st' = trace st1 @ post" by blast
      with pushed(5) have "trace st' = trace st @ evs @ (SaveEmail em, save_res d \<noteq> None) # post"
        by simp
      moreover have "d \<in> set (d # ds)" by simp
      ultimately show ?thesis using True pushed(3,4) by blast
    next
      case False
      with Cons.prems(3) pushed(5) have "u \<notin> set (seen st1)" by simp
      from Cons.IH [OF rest Cons.prems(2) this] obtain d' content original evs em pre post where
        "d' \<in> set ds" and found: "uid d' = u" "decode w d' = Inr (content, original)"
          "publish w bucket d' content original = (evs, Inr em)"
          "trace st' = pre @ evs @ (SaveEmail em, save_res d' \<noteq> None) # post"
        by blast
      then have "d' \<in> set (d # ds)" by simp
      with found show ?thesis by blast
    qed
  qed
qed

lemma for_await_acknowledged:
  assumes "for_await w bucket ds st = (None, st')"
    and "\<forall>ev\<in>set (trace st). is_storage_write (fst ev) \<longrightarrow> snd ev"
  shows "\<forall>ev\<in>set (trace st'). is_storage_write (fst ev) \<longrightarrow> snd ev"
  using assms
proof (induction ds arbitrary: st)
  case Nil
  then show ?case by simp
next
  case (Cons d ds)
  obtain r1 st1 where p: "process_message w bucket d st = (r1, st1)"
    by (cases "process_message w bucket d st")
  from p show ?case
  proof (cases rule: process_message_cases)
    case skipped
    with p Cons.prems have "for_await w bucket ds st = (None, st')" by simp
    from Cons.IH [OF this Cons.prems(2)] show ?thesis .
  next
    case (fault e evs)
    with p Cons.prems show ?thesis by auto
  next
    case (pushed content original evs em)
    with p Cons.prems have rest: "for_await w bucket ds st1 = (None, st')" by simp
    from publish_record(1) [OF pushed(4)] Cons.prems(2) pushed(5)
    have "\<forall>ev\<in>set (trace st1). is_storage_write (fst ev) \<longrightarrow> snd ev" by auto
    from Cons.IH [OF rest this] show ?thesis .
  qed
qed

lemma for_await_uids:
  assumes "for_await w bucket ds st = (r, st')"
  shows "set (seen st') \<subseteq> set (seen st) \<union> uid ` set ds"
  using assms
proof (induction ds arbitrary: st)
  case Nil
  then show ?case by simp
next
  case (Cons d ds)
  obtain r1 st1 where p: "process_message w bucket d st = (r1, st1)"
    by (cases "process_message w bucket d st")
  from p have s1: "set (seen st1) \<subseteq> set (seen st) \<union> {uid d}"
    by (cases rule: process_message_cases) auto
  show ?case
  proof (cases r1)
    case (Some e)
    with p Cons.prems s1 show ?thesis by auto
  next
    case None
    with p Cons.prems have "for_await w bucket ds st1 = (r, st')" by simp
    from Cons.IH [OF this] s1 show ?thesis by auto
  qed
qed

lemma finalize_cases [consumes 1, case_names nothing cleaned stopped]:
  assumes "finalize w st = (r, st')"
  obtains "seen st = []" and "r = None" and "st' = st"
  | "seen st \<noteq> []" and "r = None"
      and "st' = st\<lparr>trace := trace st @ [(MessageFlagsAdd (join_uids (seen st)), True),
                                         (MessageMove (join_uids (seen st)), True),
                                         (MessageDelete (join_uids (seen st)), True)]\<rparr>"
  | fin where "seen st \<noteq> []" and "r = Some MailboxMutationError"
      and "st' = st\<lparr>trace := trace st @ fin\<rparr>"
      and "prefix (map fst fin) [MessageFlagsAdd (join_uids (seen st)),
                                MessageMove (join_uids (seen st)),
                                MessageDelete (join_uids (seen st))]"
      and "fin \<noteq> []" and "\<not> snd (last fin)"
proof (cases "seen st = []")
  case True
  with assms have "r = None" and "st' = st" by (simp_all add: finalize_def)
  with True that(1) show thesis by blast
next
  case False
  show thesis
  proof (cases "flags_ok w \<and> move_ok w \<and> delete_ok w")
    case True
    with False assms have "r = None"
      and "st' = st\<lparr>trace := trace st @ [(MessageFlagsAdd (join_uids (seen st)), True),
                                         (MessageMove (join_uids (seen st)), True),
                                         (MessageDelete (join_uids (seen st)), True)]\<rparr>"
      by (simp_all add: finalize_def Let_def emit_def)
    with False that(2) show thesis by blast
  next
    case stop: False
    note stopped = that(3)
    let ?s = "join_uids (seen st)"
    consider "\<not> flags_ok w" | "flags_ok w" "\<not> move_ok w" | "flags_ok w" "move_ok w" "\<not> delete_ok w"
      using stop by blast
    then obtain fin where "r = Some MailboxMutationError" and "st' = st\<lparr>trace := trace st @ fin\<rparr>"
      and "fin = [(MessageFlagsAdd ?s, False)] \<or>
           fin = [(MessageFlagsAdd ?s, True), (MessageMove ?s, False)] \<or>
           fin = [(MessageFlagsAdd ?s, True), (MessageMove ?s, True), (MessageDelete ?s, False)]"
    proof cases
      case 1
      with False assms have "r = Some MailboxMutationError"
        and "st' = st\<lparr>trace := trace st @ [(MessageFlagsAdd ?s, False)]\<rparr>"
        by (simp_all add: finalize_def Let_def emit_def)
      with that show thesis by blast
    next
      case 2
      with False assms have "r = Some MailboxMutationError"
        and "st' = st\<lparr>trace := trace st @ [(MessageFlagsAdd ?s, True), (MessageMove ?s, False)]\<rparr>"
        by (simp_all add: finalize_def Let_def emit_def)
      with that show thesis by blast
    next
      case 3
      with False assms have "r = Some MailboxMutationError"
        and "st' = st\<lparr>trace := trace st @
               [(MessageFlagsAdd ?s, True), (MessageMove ?s, True), (MessageDelete ?s, False)]\<rparr>"
        by (simp_all add: finalize_def Let_def emit_def)
      with that show thesis by blast
    qed
    moreover from this(3) have "prefix (map fst fin) [MessageFlagsAdd ?s, MessageMove ?s, MessageDelete ?s]"
      and "fin \<noteq> []" and "\<not> snd (last fin)"
      by auto
    ultimately show thesis using False stopped by blast
  qed
qed

lemma for_await_decoded:
  assumes "for_await w bucket ds st = (None, st')" and "d \<in> set ds"
  shows "\<exists>co. decode w d = Inr co"
  using assms
proof (induction ds arbitrary: st)
  case Nil
  then show ?case by simp
next
  case (Cons x ds)
  obtain r1 st1 where p: "process_message w bucket x st = (r1, st1)"
    by (cases "process_message w bucket x st")
  from p show ?case
  proof (cases rule: process_message_cases)
    case skipped
    with p Cons.prems(1) have "for_await w bucket ds st = (None, st')" by simp
    with Cons.IH Cons.prems(2) skipped(3) show ?thesis by auto
  next
    case (fault e evs)
    with p Cons.prems(1) show ?thesis by simp
  next
    case (pushed content original evs em)
    with p Cons.prems(1) have "for_await w bucket ds st1 = (None, st')" by simp
    with Cons.IH Cons.prems(2) pushed(3) show ?thesis by auto
  qed
qed

section \<open>Other answers of the stored procedure\<close>

lemma with_save_fields:
  "simpleParser (with_save f w) = simpleParser w"
  "new_date (with_save f w) = new_date w"
  "fetch (with_save f w) = map (\<lambda>d. d\<lparr>save_res := f d\<rparr>) (fetch w)"
  "JSON_stringify (with_save f w) = JSON_stringify w"
  by (simp_all add: with_save_def)

lemma publish_attachment_with_save:
  "publish_attachment bucket folder (d\<lparr>save_res := x\<rparr>) = publish_attachment bucket folder d"
  by (rule ext) (simp add: publish_attachment_def split: sum.splits)

lemma decode_with_save: "decode (with_save f w) (d\<lparr>save_res := x\<rparr>) = decode w d"
  by (simp add: decode_def with_save_fields cong: option.case_cong list.case_cong)

lemma publish_with_save:
  "publish (with_save f w) bucket (d\<lparr>save_res := x\<rparr>) content original = publish w bucket d content original"
  by (simp add: publish_def with_save_fields publish_attachment_with_save
           cong: sum.case_cong if_cong)

lemma mutations_loop_calls:
  assumes "trace st' = trace st @ evs" and "\<forall>ev\<in>set evs. loop_call (fst ev)"
  shows "mutations st' = mutations st"
proof -
  have "\<not> is_mutation c" if "loop_call c" for c
    using that by (cases c) (auto simp: loop_call_def)
  with assms(2) have "filter (\<lambda>ev. is_mutation (fst ev)) evs = []" by (auto simp: filter_empty_conv)
  with assms(1) show ?thesis by (simp add: mutations_def)
qed

lemma process_message_with_save:
  assumes "seen st2 = seen st"
  shows "fst (process_message (with_save f w) bucket (d\<lparr>save_res := x\<rparr>) st2) =
           fst (process_message w bucket d st) \<and>
         seen (snd (process_message (with_save f w) bucket (d\<lparr>save_res := x\<rparr>) st2)) =
           seen (snd (process_message w bucket d st))"
  using assms
  by (auto simp: process_message_def decode_with_save publish_with_save split: sum.splits prod.splits)

lemma for_await_with_save:
  assumes "seen st2 = seen st"
  shows "fst (for_await (with_save f w) bucket (map (\<lambda>d. d\<lparr>save_res := f d\<rparr>) ds) st2) =
           fst (for_await w bucket ds st) \<and>
         seen (snd (for_await (with_save f w) bucket (map (\<lambda>d. d\<lparr>save_res := f d\<rparr>) ds) st2)) =
           seen (snd (for_await w bucket ds st))"
  using assms
proof (induction ds arbitrary: st st2)
  case Nil
  then show ?case by simp
next
  case (Cons d ds)
  obtain r1 st1 where p: "process_message w bucket d st = (r1, st1)"
    by (cases "process_message w bucket d st")
  obtain r1' st1' where p': "process_message (with_save f w) bucket (d\<lparr>save_res := f d\<rparr>) st2 = (r1', st1')"
    by (cases "process_message (with_save f w) bucket (d\<lparr>save_res := f d\<rparr>) st2")
  from process_message_with_save [OF Cons.prems, where f = f and w = w and bucket = bucket and d = d and x = "f d"] p p'
  have same: "r1' = r1" "seen st1' = seen st1" by simp_all
  show ?case
  proof (cases r1)
    case None
    with p p' same Cons.IH [OF same(2)] show ?thesis by simp
  next
    case (Some e)
    with p p' same show ?thesis by simp
  qed
qed

lemma with_save_answers:
  "imap_params_ok (with_save f w) = imap_params_ok w"
  "connect_ok (with_save f w) = connect_ok w"
  "lock_ok (with_save f w) = lock_ok w"
  "status_messages (with_save f w) = status_messages w"
  "mysql_params_ok (with_save f w) = mysql_params_ok w"
  "db_connect_ok (with_save f w) = db_connect_ok w"
  "email_bucket (with_save f w) = email_bucket w"
  "fetch_ok (with_save f w) = fetch_ok w"
  "flags_ok (with_save f w) = flags_ok w"
  "move_ok (with_save f w) = move_ok w"
  "delete_ok (with_save f w) = delete_ok w"
  "logout_ok (with_save f w) = logout_ok w"
  by (simp_all add: with_save_def)

lemma mutations_emit: "mutations (emit ev st) = mutations st @ (if is_mutation (fst ev) then [ev] else [])"
  by (simp add: mutations_def emit_def)

lemma emit_fields: "seen (emit ev st) = seen st" "result (emit ev st) = result st"
  by (simp_all add: emit_def)

lemma mutations_update: "mutations (st\<lparr>result := j\<rparr>) = mutations st" "mutations (st\<lparr>seen := s\<rparr>) = mutations st"
  by (simp_all add: mutations_def)

lemma finalize_with_save:
  assumes "seen st2 = seen st" and "mutations st2 = mutations st"
  shows "fst (finalize (with_save f w) st2) = fst (finalize w st)"
    and "seen (snd (finalize (with_save f w) st2)) = seen (snd (finalize w st))"
    and "mutations (snd (finalize (with_save f w) st2)) = mutations (snd (finalize w st))"
  using assms
  by (simp_all add: finalize_def Let_def with_save_answers mutations_emit emit_fields)

lemma for_await_mutations: "mutations (snd (for_await w bucket ds st)) = mutations st"
proof -
  obtain r st' where l: "for_await w bucket ds st = (r, st')" by (cases "for_await w bucket ds st")
  from for_await_trace [OF l] obtain evs where
    "trace st' = trace st @ evs" "\<forall>ev\<in>set evs. loop_call (fst ev)" by blast
  then have "mutations st' = mutations st" by (rule mutations_loop_calls)
  with l show ?thesis by simp
qed

lemma process_inbox_with_save:
  "fst (process_inbox (with_save f w) bucket st) = fst (process_inbox w bucket st)"
  "seen (snd (process_inbox (with_save f w) bucket st)) = seen (snd (process_inbox w bucket st))"
  "mutations (snd (process_inbox (with_save f w) bucket st)) = mutations (snd (process_inbox w bucket st))"
  "fst (process_inbox w bucket st) = None \<Longrightarrow>
     result (snd (process_inbox (with_save f w) bucket st)) = result (snd (process_inbox w bucket st))"
proof -
  let ?st0 = "emit (Fetch, fetch_ok w) (st\<lparr>seen := []\<rparr>)"
  let ?l = "for_await w bucket (fetch w) ?st0"
  let ?l' = "for_await (with_save f w) bucket (map (\<lambda>d. d\<lparr>save_res := f d\<rparr>) (fetch w)) ?st0"
  have same: "fst ?l' = fst ?l" "seen (snd ?l') = seen (snd ?l)"
    using for_await_with_save [of ?st0 ?st0 f w bucket "fetch w"] by simp_all
  have mut: "mutations (snd ?l') = mutations (snd ?l)" by (simp add: for_await_mutations)
  note fin = finalize_with_save [OF same(2) mut, of f w]
  obtain rl stl where l: "?l = (rl, stl)" by (cases ?l)
  obtain rl' stl' where l': "?l' = (rl', stl')" by (cases ?l')
  obtain rf stf where f: "finalize w stl = (rf, stf)" by (cases "finalize w stl")
  obtain rf' stf' where f': "finalize (with_save f w) stl' = (rf', stf')"
    by (cases "finalize (with_save f w) stl'")
  from same l l' have rl: "rl' = rl" "seen stl' = seen stl" by simp_all
  from fin l l' f f' have rf: "rf' = rf" "seen stf' = seen stf" "mutations stf' = mutations stf" by simp_all
  from mut l l' have ml: "mutations stl' = mutations stl" by simp
  have pi: "process_inbox w bucket st =
      (case rl of Some e \<Rightarrow> (Some e, stl)
       | None \<Rightarrow> if \<not> fetch_ok w then (Some MailboxUnavailable, stl)
                 else (case rf of Some e \<Rightarrow> (Some e, stf)
                       | None \<Rightarrow> (None, emit (DbEnd, True) (stf\<lparr>result := result_success\<rparr>))))"
    using l f by (simp add: process_inbox_def split: option.splits)
  have pi': "process_inbox (with_save f w) bucket st =
      (case rl of Some e \<Rightarrow> (Some e, stl')
       | None \<Rightarrow> if \<not> fetch_ok w then (Some MailboxUnavailable, stl')
                 else (case rf of Some e \<Rightarrow> (Some e, stf')
                       | None \<Rightarrow> (None, emit (DbEnd, True) (stf'\<lparr>result := result_success\<rparr>))))"
    using l' f' rl rf by (simp add: process_inbox_def with_save_answers with_save_fields split: option.splits)
  show "fst (process_inbox (with_save f w) bucket st) = fst (process_inbox w bucket st)"
    unfolding pi pi' by (simp split: option.splits)
  show "seen (snd (process_inbox (with_save f w) bucket st)) = seen (snd (process_inbox w bucket st))"
    unfolding pi pi' using rl rf by (simp add: emit_fields split: option.splits)
  show "mutations (snd (process_inbox (with_save f w) bucket st)) = mutations (snd (process_inbox w bucket st))"
    unfolding pi pi' using ml rf by (simp add: mutations_emit mutations_update split: option.splits)
  show "result (snd (process_inbox (with_save f w) bucket st)) = result (snd (process_inbox w bucket st))"
    if "fst (process_inbox w bucket st) = None"
    using that unfolding pi pi' by (simp add: emit_fields split: option.splits if_splits)
qed

lemma try_block_with_save:
  "fst (try_block (with_save f w) st) = fst (try_block w st)"
  "seen (snd (try_block (with_save f w) st)) = seen (snd (try_block w st))"
  "mutations (snd (try_block (with_save f w) st)) = mutations (snd (try_block w st))"
  by (simp_all add: try_block_def Let_def with_save_answers process_inbox_with_save
        split: option.splits)

lemma try_block_result_with_save:
  assumes "fst (try_block w st) = None"
  shows "result (snd (try_block (with_save f w) st)) = result (snd (try_block w st))"
  using assms
  by (auto simp: try_block_def Let_def with_save_answers process_inbox_with_save
        split: option.splits if_splits)

lemma handler_with_save:
  "fst (handler (with_save f w)) = fst (handler w)"
  "seen (snd (handler (with_save f w))) = seen (snd (handler w))"
  "mutations (snd (handler (with_save f w))) = mutations (snd (handler w))"
proof -
  have "fst (handler (with_save f w)) = fst (handler w) \<and>
        seen (snd (handler (with_save f w))) = seen (snd (handler w)) \<and>
        mutations (snd (handler (with_save f w))) = mutations (snd (handler w))"
  proof (cases "imap_params_ok w \<and> connect_ok w \<and> lock_ok w")
    case False
    then show ?thesis
      by (auto simp: handler_def Let_def with_save_answers emit_fields mutations_emit mutations_def)
  next
    case True
    note tb = try_block_with_save [where f = f and w = w and st = lock_held]
    obtain r st' where t: "try_block w lock_held = (r, st')" by (cases "try_block w lock_held")
    obtain r2 st2 where t2: "try_block (with_save f w) lock_held = (r2, st2)"
      by (cases "try_block (with_save f w) lock_held")
    from tb t t2 have same: "r2 = r" "seen st2 = seen st'" "mutations st2 = mutations st'"
      by simp_all
    from try_block_result_with_save [of w lock_held f] t t2
    have res: "r = None \<Longrightarrow> result st2 = result st'" by simp
    have h: "handler w =
        (case r of Some e \<Rightarrow> (Thrown e, emit (LockRelease, True) st')
         | None \<Rightarrow>
            (if \<not> logout_ok w then Thrown LogoutError
             else Returned \<lparr>statusCode = 200, headers = [(''Access-Control-Allow-Origin'', ''*'')],
                             body = JSON_stringify w (result st')\<rparr>,
             emit (Logout, logout_ok w) (emit (LockRelease, True) st')))"
      using True t by (simp add: handler_def Let_def emit_def lock_held_def split: option.splits)
    have h2: "handler (with_save f w) =
        (case r of Some e \<Rightarrow> (Thrown e, emit (LockRelease, True) st2)
         | None \<Rightarrow>
            (if \<not> logout_ok w then Thrown LogoutError
             else Returned \<lparr>statusCode = 200, headers = [(''Access-Control-Allow-Origin'', ''*'')],
                             body = JSON_stringify w (result st2)\<rparr>,
             emit (Logout, logout_ok w) (emit (LockRelease, True) st2)))"
      using True t2 same(1)
      by (simp add: handler_def Let_def emit_def lock_held_def with_save_answers with_save_fields
            split: option.splits)
    show ?thesis unfolding h h2 using same res
      by (simp add: emit_fields mutations_emit split: option.splits)
  qed
  then show "fst (handler (with_save f w)) = fst (handler w)"
    and "seen (snd (handler (with_save f w))) = seen (snd (handler w))"
    and "mutations (snd (handler (with_save f w))) = mutations (snd (handler w))"
    by simp_all
qed

section \<open>What the loop leaves behind\<close>

lemma process_inbox_result:
  "process_inbox w bucket st = (None, st') \<Longrightarrow> result st' = result_success"
  by (auto simp: process_inbox_def emit_def split: prod.splits option.splits if_splits)

lemma loop_state:
  assumes "for_await w bucket (fetch w) (fetching w) = (r, stl)"
  shows "mutations stl = []"
    and "r = None \<Longrightarrow> \<forall>ev\<in>set (trace stl). is_storage_write (fst ev) \<longrightarrow> snd ev"
proof -
  have "mutations (fetching w) = []"
    by (simp add: mutations_def fetching_def connected_def lock_held_def emit_def)
  with for_await_mutations [of w bucket "fetch w" "fetching w"] assms
  show "mutations stl = []" by simp
  have "\<forall>ev\<in>set (trace (fetching w)). is_storage_write (fst ev) \<longrightarrow> snd ev"
    by (simp add: fetching_def connected_def lock_held_def emit_def)
  with assms show "\<forall>ev\<in>set (trace stl). is_storage_write (fst ev) \<longrightarrow> snd ev" if "r = None"
    using that for_await_acknowledged by blast
qed

lemma process_inbox_trace:
  assumes "process_inbox w bucket st = (r, st')"
  shows "\<exists>evs. trace st' = trace st @ evs \<and>
           (\<forall>ev\<in>set evs. fst ev = Fetch \<or> loop_call (fst ev) \<or> is_mutation (fst ev) \<or> fst ev = DbEnd)"
proof -
  let ?st0 = "emit (Fetch, fetch_ok w) (st\<lparr>seen := []\<rparr>)"
  obtain rl stl where l: "for_await w bucket (fetch w) ?st0 = (rl, stl)"
    by (cases "for_await w bucket (fetch w) ?st0")
  from for_await_trace [OF l] obtain evs where
    evs: "trace stl = trace ?st0 @ evs" "\<forall>ev\<in>set evs. loop_call (fst ev)" by blast
  then have stl: "trace stl = trace st @ (Fetch, fetch_ok w) # evs" by (simp add: emit_def)
  obtain rf stf where f: "finalize w stl = (rf, stf)" by (cases "finalize w stl")
  from f obtain fin where fin: "trace stf = trace stl @ fin" "\<forall>ev\<in>set fin. is_mutation (fst ev)"
  proof (cases rule: finalize_cases)
    case nothing
    with that [of "[]"] show thesis by simp
  next
    case cleaned
    with that show thesis by simp
  next
    case (stopped fin)
    from stopped(4) have "set (map fst fin) \<subseteq> {MessageFlagsAdd (join_uids (seen stl)),
        MessageMove (join_uids (seen stl)), MessageDelete (join_uids (seen stl))}"
      using set_mono_prefix by fastforce
    then have "\<forall>ev\<in>set fin. is_mutation (fst ev)" by auto
    with stopped that show thesis by simp
  qed
  from assms l f have "st' = stl \<or> st' = stf \<or> st' = emit (DbEnd, True) (stf\<lparr>result := result_success\<rparr>)"
    by (auto simp: process_inbox_def split: option.splits if_splits)
  then consider "trace st' = trace st @ (Fetch, fetch_ok w) # evs"
    | "trace st' = trace st @ (Fetch, fetch_ok w) # evs @ fin"
    | "trace st' = trace st @ (Fetch, fetch_ok w) # evs @ fin @ [(DbEnd, True)]"
    using stl fin(1) by (auto simp: emit_def)
  then show ?thesis
  proof cases
    case 1
    with evs(2) show ?thesis by (intro exI [of _ "(Fetch, fetch_ok w) # evs"]) auto
  next
    case 2
    with evs(2) fin(2) show ?thesis by (intro exI [of _ "(Fetch, fetch_ok w) # evs @ fin"]) auto
  next
    case 3
    with evs(2) fin(2) show ?thesis
      by (intro exI [of _ "(Fetch, fetch_ok w) # evs @ fin @ [(DbEnd, True)]"]) auto
  qed
qed

lemma published_before_seen:
  assumes "for_await w bucket ds st0 = (r, st1)" and "u \<in> set (seen st1)" and "u \<notin> set (seen st0)"
  shows "\<exists>d. d \<in> set ds \<and> uid d = u \<and> written_then_saved w bucket d (trace st1)"
proof -
  from for_await_seen [OF assms] obtain d content original evs em before after where
    d: "d \<in> set ds" "uid d = u" "decode w d = Inr (content, original)"
    and p: "publish w bucket d content original = (evs, Inr em)"
    and t: "trace st1 = before @ evs @ (SaveEmail em, save_res d \<noteq> None) # after"
    by blast
  note rec = publish_record [OF p]
  from publish_writes [OF p] rec(1)
  have "list_all (\<lambda>ev. is_storage_write (fst ev) \<and> snd ev) evs" by (auto simp: list_all_iff)
  moreover from rec(4)
  have "list_all (\<lambda>a. \<exists>blob ct. (PutObject bucket (asset_key a) blob ct, True) \<in> set evs)
          (e_attachments em)"
    by (simp add: list_all_iff)
  ultimately have "written_then_saved w bucket d (trace st1)"
    unfolding written_then_saved_def using d(3) t rec(2,3) by blast
  with d show ?thesis by blast
qed

lemma written_then_saved_later:
  assumes "written_then_saved w bucket d tr"
  shows "written_then_saved w bucket d (tr @ tail)"
proof -
  from assms obtain content original evs em before after where
    "decode w d = Inr (content, original)"
    "tr = before @ evs @ (SaveEmail em, save_res d \<noteq> None) # after"
    "length evs = Suc (length (m_attachments original))"
    "list_all (\<lambda>ev. is_storage_write (fst ev) \<and> snd ev) evs"
    "length (e_attachments em) = Suc (length (m_attachments original))"
    "list_all (\<lambda>a. \<exists>blob ct. (PutObject bucket (asset_key a) blob ct, True) \<in> set evs)
       (e_attachments em)"
    unfolding written_then_saved_def by blast
  moreover from this(2)
  have "tr @ tail = before @ evs @ (SaveEmail em, save_res d \<noteq> None) # (after @ tail)" by simp
  ultimately show ?thesis unfolding written_then_saved_def by blast
qed

lemma for_await_append:
  "for_await w bucket (ds1 @ ds2) st =
     (case for_await w bucket ds1 st of
        (Some e, st') \<Rightarrow> (Some e, st')
      | (None, st') \<Rightarrow> for_await w bucket ds2 st')"
  by (induction ds1 arbitrary: st) (auto split: prod.splits option.splits)

lemma finalize_summary:
  assumes "finalize w st = (r, st')" and "mutations st = []"
  shows "seen st' = seen st"
    and "prefix (map fst (mutations st'))
           [MessageFlagsAdd (join_uids (seen st)), MessageMove (join_uids (seen st)),
            MessageDelete (join_uids (seen st))]"
    and "r = None \<Longrightarrow> seen st \<noteq> [] \<Longrightarrow>
           mutations st' = [(MessageFlagsAdd (join_uids (seen st)), True),
                            (MessageMove (join_uids (seen st)), True),
                            (MessageDelete (join_uids (seen st)), True)]"
    and "\<forall>ev\<in>set (trace st). is_storage_write (fst ev) \<longrightarrow> snd ev \<Longrightarrow>
           \<forall>ev\<in>set (trace st'). is_storage_write (fst ev) \<longrightarrow> snd ev"
    and "\<exists>fin. trace st' = trace st @ fin"
proof -
  let ?s = "join_uids (seen st)"
  let ?all = "[MessageFlagsAdd ?s, MessageMove ?s, MessageDelete ?s]"
  from assms(1) obtain fin where fin: "st' = st\<lparr>trace := trace st @ fin\<rparr>"
    and pre: "prefix (map fst fin) ?all"
    and full: "r = None \<Longrightarrow> seen st \<noteq> [] \<Longrightarrow>
                 fin = [(MessageFlagsAdd ?s, True), (MessageMove ?s, True), (MessageDelete ?s, True)]"
  proof (cases rule: finalize_cases)
    case nothing
    with that [of "[]"] show thesis by simp
  next
    case cleaned
    with that [of "[(MessageFlagsAdd ?s, True), (MessageMove ?s, True), (MessageDelete ?s, True)]"]
    show thesis by simp
  next
    case (stopped fin)
    with that [of fin] show thesis by simp
  qed
  from pre have "set (map fst fin) \<subseteq> set ?all" by (rule set_mono_prefix)
  then have mut: "\<forall>ev\<in>set fin. is_mutation (fst ev)" by auto
  then have keep: "filter (\<lambda>ev. is_mutation (fst ev)) fin = fin" by simp
  from fin assms(2) keep have m: "mutations st' = fin" by (simp add: mutations_def)
  show "seen st' = seen st" using fin by simp
  show "prefix (map fst (mutations st')) ?all" using m pre by simp
  show "mutations st' = [(MessageFlagsAdd ?s, True), (MessageMove ?s, True), (MessageDelete ?s, True)]"
    if "r = None" "seen st \<noteq> []"
    using m full that by simp
  show "\<forall>ev\<in>set (trace st'). is_storage_write (fst ev) \<longrightarrow> snd ev"
    if "\<forall>ev\<in>set (trace st). is_storage_write (fst ev) \<longrightarrow> snd ev"
  proof
    fix ev assume "ev \<in> set (trace st')"
    with fin have "ev \<in> set (trace st) \<or> ev \<in> set fin" by auto
    then show "is_storage_write (fst ev) \<longrightarrow> snd ev"
    proof
      assume "ev \<in> set (trace st)" with that show ?thesis by blast
    next
      assume "ev \<in> set fin"
      with mut have "is_mutation (fst ev)" by blast
      then show ?thesis by (cases "fst ev") simp_all
    qed
  qed
  show "\<exists>fin. trace st' = trace st @ fin" using fin by simp
qed

text \<open>What a run leaves behind, path by path.\<close>

lemma handler_summary:
  assumes "handler w = (out, st)"
  shows "prefix (map fst (mutations st))
           [MessageFlagsAdd (join_uids (seen st)), MessageMove (join_uids (seen st)),
            MessageDelete (join_uids (seen st))] \<and>
         ((\<exists>r. out = Returned r) \<and> seen st \<noteq> [] \<longrightarrow>
           mutations st = [(MessageFlagsAdd (join_uids (seen st)), True),
                           (MessageMove (join_uids (seen st)), True),
                           (MessageDelete (join_uids (seen st)), True)]) \<and>
         ((\<exists>ev\<in>set (trace st). is_storage_write (fst ev) \<and> \<not> snd ev) \<longrightarrow>
           (\<exists>e. out = Thrown e) \<and> mutations st = [] \<and> (LockRelease, True) \<in> set (trace st))"
  using assms
proof (cases rule: handler_paths)
  case outside
  from outside(2) have m: "mutations st = []"
    by (auto simp: mutations_def filter_empty_conv)
  from outside(2) have nw: "\<forall>ev\<in>set (trace st). \<not> is_storage_write (fst ev)" by fastforce
  from m nw outside(1) show ?thesis by simp
next
  case (loop_fault bucket e stl)
  note ls = loop_state [OF loop_fault(3)]
  from loop_fault(5) ls(1) have m: "mutations st = []" by (simp add: mutations_emit)
  from m loop_fault(4,5) show ?thesis by (simp add: emit_def)
next
  case (fetch_fault bucket stl)
  note ls = loop_state [OF fetch_fault(3)]
  from fetch_fault(6) ls(1) have m: "mutations st = []" by (simp add: mutations_emit)
  from m fetch_fault(5,6) show ?thesis by (simp add: emit_def)
next
  case (cleanup_fault bucket stl e stf)
  note ls = loop_state [OF cleanup_fault(3)]
  note fs = finalize_summary [OF cleanup_fault(5) ls(1)]
  from cleanup_fault(7) have st: "mutations st = mutations stf" "seen st = seen stf"
    by (simp_all add: mutations_emit emit_fields)
  from fs(4) ls(2) have ack: "\<forall>ev\<in>set (trace st). is_storage_write (fst ev) \<longrightarrow> snd ev"
    using cleanup_fault(7) by (auto simp: emit_def)
  from st fs(1,2) cleanup_fault(6) ack show ?thesis by auto
next
  case (completed bucket stl stf)
  note ls = loop_state [OF completed(3)]
  note fs = finalize_summary [OF completed(5) ls(1)]
  from completed(6) have st: "mutations st = mutations stf" "seen st = seen stf"
    by (simp_all add: mutations_emit emit_fields mutations_update)
  from fs(4) ls(2) have ack: "\<forall>ev\<in>set (trace st). is_storage_write (fst ev) \<longrightarrow> snd ev"
    using completed(6) by (auto simp: emit_def)
  from st fs(1,2,3) ack show ?thesis by auto
qed

lemma loop_fault_ends_run:
  assumes "handler w = (out, st)" and "(Fetch, ok) \<in> set (trace st)"
    and "email_bucket w = Some b"
    and "for_await w b (fetch w) (fetching w) = (Some fault, stl)"
  shows "out = Thrown fault \<and> mutations st = [] \<and> trace st = trace stl @ [(LockRelease, True)]"
  using assms(1)
proof (cases rule: handler_paths)
  case outside
  with assms(2) show ?thesis by fastforce
next
  case (loop_fault bucket e stl')
  with assms(3,4) have same: "e = fault" "stl' = stl" by simp_all
  from loop_state(1) [OF assms(4)] loop_fault(5) same have "mutations st = []"
    by (simp add: mutations_emit)
  with loop_fault(4,5) same show ?thesis by (simp add: emit_def)
next
  case (fetch_fault bucket stl')
  with assms(3,4) show ?thesis by simp
next
  case (cleanup_fault bucket stl' e stf)
  with assms(3,4) show ?thesis by simp
next
  case (completed bucket stl' stf)
  with assms(3,4) show ?thesis by simp
qed

section \<open>The names of the uploads\<close>








section \<open>Runs on the example mailbox\<close>

lemmas run_defs = handler_def try_block_def process_inbox_def finalize_def emit_def
  process_message_def decode_def publish_def publish_attachment_def message_folder_def
  first_mailbox_def folder_key_def eml_name_def split_first_def attachment_filename_def
  getFileExtension_def dotfree_suffix_def str_of_def build_email_def eml_asset_def
  result_success_def result_failure_def mutations_def field_def Let_def
  toString.simps digit_char_def enumerate_eq_zip upt_rec

lemmas world_defs = inbox_def msg_def parser_def envelope_def alice_mail_def pdf_def march_def
  stringify_def

lemma run_empty:
  "handler (inbox []) =
     (Returned \<lparr>statusCode = 200, headers = [(''Access-Control-Allow-Origin'', ''*'')],
                body = ''{\"success\":false,\"error\":\"No messages in INBOX\"}''\<rparr>,
      \<lparr>trace = [(GetImapConfig, True), (Connect, True), (GetMailboxLock, True), (Status, True),
                (LockRelease, True), (Logout, True)],
       result = JObject [(''success'', JBool False), (''error'', JString ''No messages in INBOX'')],
       seen = []\<rparr>)"
  by (simp add: run_defs world_defs)

lemma run_two:
  "fst (handler (inbox [msg 1, msg 2])) =
     Returned \<lparr>statusCode = 200, headers = [(''Access-Control-Allow-Origin'', ''*'')],
               body = ''{\"success\":true}''\<rparr>"
  "result (snd (handler (inbox [msg 1, msg 2]))) = JObject [(''success'', JBool True)]"
  "seen (snd (handler (inbox [msg 1, msg 2]))) = [1, 2]"
  by (simp_all add: run_defs world_defs)

lemma run_save_fails:
  "fst (handler (inbox [msg 1, (msg 2)\<lparr>save_res := None\<rparr>])) =
     Returned \<lparr>statusCode = 200, headers = [(''Access-Control-Allow-Origin'', ''*'')],
               body = ''{\"success\":true}''\<rparr>"
  "seen (snd (handler (inbox [msg 1, (msg 2)\<lparr>save_res := None\<rparr>]))) = [1, 2]"
  "mutations (snd (handler (inbox [msg 1, (msg 2)\<lparr>save_res := None\<rparr>]))) =
     [(MessageFlagsAdd ''1,2'', True), (MessageMove ''1,2'', True), (MessageDelete ''1,2'', True)]"
  by (simp_all add: run_defs world_defs)

lemma run_first_save_fails:
  "seen (snd (handler (inbox [(msg 1)\<lparr>save_res := None\<rparr>, msg 2]))) = [1, 2]"
  by (simp add: run_defs world_defs)

lemma run_write_fails:
  "fst (handler (inbox [msg 1, (msg 2)\<lparr>eml_put_ok := False\<rparr>])) = Thrown StorageWriteError"
  "seen (snd (handler (inbox [msg 1, (msg 2)\<lparr>eml_put_ok := False\<rparr>]))) = [1]"
  "mutations (snd (handler (inbox [msg 1, (msg 2)\<lparr>eml_put_ok := False\<rparr>]))) = []"
  by (simp_all add: run_defs world_defs)

lemma run_malformed:
  "handler (inbox [(msg 1)\<lparr>source := ''garbage''\<rparr>]) =
     (Thrown MalformedMessage,
      \<lparr>trace = [(GetImapConfig, True), (Connect, True), (GetMailboxLock, True), (Status, True),
                (GetMySqlConnection, True), (DbConnect, True), (Fetch, True), (LockRelease, True)],
       result = JObject [(''failed'', JBool True)], seen = []\<rparr>)"
  by (simp add: run_defs world_defs)

lemma run_no_bucket:
  "handler ((inbox [msg 1])\<lparr>email_bucket := None\<rparr>) =
     (Thrown ConfigurationError,
      \<lparr>trace = [(GetImapConfig, True), (Connect, True), (GetMailboxLock, True), (Status, True),
                (GetMySqlConnection, True), (DbConnect, True), (LockRelease, True)],
       result = JObject [(''failed'', JBool True)], seen = []\<rparr>)"
  by (simp add: run_defs world_defs)

lemma run_db_down:
  "handler ((inbox [msg 1])\<lparr>db_connect_ok := False\<rparr>) =
     (Returned \<lparr>statusCode = 200, headers = [(''Access-Control-Allow-Origin'', ''*'')],
                body = ''{\"success\":false,\"error\":\"Could not connect to MySQL database\"}''\<rparr>,
      \<lparr>trace = [(GetImapConfig, True), (Connect, True), (GetMailboxLock, True), (Status, True),
                (GetMySqlConnection, True), (DbConnect, False), (LockRelease, True), (Logout, True)],
       result = JObject [(''success'', JBool False),
                         (''error'', JString ''Could not connect to MySQL database'')],
       seen = []\<rparr>)"
  by (simp add: run_defs world_defs)

lemma run_write_fails_event:
  "(PutObject ''emails'' ''inbound/2025/3/alice/m1.eml'' ''EML'' ''application/octet-stream'', False)
     \<in> set (trace (snd (handler (inbox [msg 1, (msg 2)\<lparr>eml_put_ok := False\<rparr>]))))"
  by (simp add: run_defs world_defs)




section \<open>The processed set (C1)\<close>

text \<open>
  C1, as the specification has it, fails: the rejection handler of the persistence call
  only logs, so the UID of a message whose record was not persisted is pushed like any
  other, and flagged, moved and deleted with the rest.
\<close>

theorem unpersisted_message_is_finalized:
  "save_res ((msg 2)\<lparr>save_res := None\<rparr>) = None \<and> uid ((msg 2)\<lparr>save_res := None\<rparr>) = 2 \<and>
   seen (snd (handler (inbox [msg 1, (msg 2)\<lparr>save_res := None\<rparr>]))) = [1, 2] \<and>
   mutations (snd (handler (inbox [msg 1, (msg 2)\<lparr>save_res := None\<rparr>]))) =
     [(MessageFlagsAdd ''1,2'', True), (MessageMove ''1,2'', True), (MessageDelete ''1,2'', True)]"
  using run_save_fails by (simp add: msg_def)

text \<open>
  C1, amended. For every run and every fetched message, the message's UID is added to the
  processed set only after all of its blobs (the \<^verbatim>\<open>.eml\<close> and one per attachment, the
  ones its record names) have been written and acknowledged and after the call that
  persists its record has been made and has settled. This holds after any number of rounds
  of the loop, from any state it may start in, and so at the end of every run: a UID of
  the processed set is that of a fetched message whose writes, and after them its
  persistence call, stand in the trace.
\<close>

theorem processed_after_writes_and_save:
  "(for_await w bucket ds st0 = (r, st1) \<and> u \<in> set (seen st1) \<and> u \<notin> set (seen st0) \<longrightarrow>
      (\<exists>d. d \<in> set ds \<and> uid d = u \<and> written_then_saved w bucket d (trace st1))) \<and>
   (handler w = (out, st) \<and> u \<in> set (seen st) \<longrightarrow>
      (\<exists>d b. d \<in> set (fetch w) \<and> uid d = u \<and> email_bucket w = Some b \<and>
             written_then_saved w b d (trace st)))"
proof (intro conjI impI)
  assume "for_await w bucket ds st0 = (r, st1) \<and> u \<in> set (seen st1) \<and> u \<notin> set (seen st0)"
  then show "\<exists>d. d \<in> set ds \<and> uid d = u \<and> written_then_saved w bucket d (trace st1)"
    using published_before_seen by blast
next
  assume run: "handler w = (out, st) \<and> u \<in> set (seen st)"
  let ?goal = "\<exists>d b. d \<in> set (fetch w) \<and> uid d = u \<and> email_bucket w = Some b \<and>
                 written_then_saved w b d (trace st)"
  have start: "u \<notin> set (seen (fetching w))"
    by (simp add: fetching_def connected_def lock_held_def emit_def)
  have main: ?goal
    if b: "email_bucket w = Some b"
      and l: "for_await w b (fetch w) (fetching w) = (rl, stl)"
      and s: "seen st = seen stl" and t: "trace st = trace stl @ tail"
    for b rl stl tail
  proof -
    from s run have "u \<in> set (seen stl)" by simp
    from published_before_seen [OF l this start]
    obtain d where d: "d \<in> set (fetch w)" "uid d = u"
      and "written_then_saved w b d (trace stl)" by blast
    then have "written_then_saved w b d (trace st)"
      unfolding t by (intro written_then_saved_later)
    with d b show ?thesis by blast
  qed
  from run have "handler w = (out, st)" by simp
  then show ?goal
  proof (cases rule: handler_paths)
    case outside
    with run show ?thesis by simp
  next
    case (loop_fault b e stl)
    then show ?thesis
      by (intro main [of b "Some e" stl "[(LockRelease, True)]"]) (simp_all add: emit_def)
  next
    case (fetch_fault b stl)
    then show ?thesis
      by (intro main [of b None stl "[(LockRelease, True)]"]) (simp_all add: emit_def)
  next
    case (cleanup_fault b stl e stf)
    from finalize_summary(1,5) [OF cleanup_fault(5) loop_state(1) [OF cleanup_fault(3)]]
    obtain fin where "seen stf = seen stl" "trace stf = trace stl @ fin" by blast
    with cleanup_fault show ?thesis
      by (intro main [of b None stl "fin @ [(LockRelease, True)]"]) (simp_all add: emit_def)
  next
    case (completed b stl stf)
    from finalize_summary(1,5) [OF completed(5) loop_state(1) [OF completed(3)]]
    obtain fin where "seen stf = seen stl" "trace stf = trace stl @ fin" by blast
    with completed show ?thesis
      by (intro main [of b None stl
            "fin @ [(DbEnd, True), (LockRelease, True), (Logout, logout_ok w)]"])
         (simp_all add: emit_def)
  qed
qed

theorem processed_after_writes_and_save_witness:
  "2 \<in> set (seen (snd (handler (inbox [msg 1, (msg 2)\<lparr>save_res := None\<rparr>])))) \<and>
   (\<exists>d b. d \<in> set (fetch (inbox [msg 1, (msg 2)\<lparr>save_res := None\<rparr>])) \<and> uid d = 2 \<and>
      email_bucket (inbox [msg 1, (msg 2)\<lparr>save_res := None\<rparr>]) = Some b \<and>
      written_then_saved (inbox [msg 1, (msg 2)\<lparr>save_res := None\<rparr>]) b d
        (trace (snd (handler (inbox [msg 1, (msg 2)\<lparr>save_res := None\<rparr>])))))"
proof -
  let ?w = "inbox [msg 1, (msg 2)\<lparr>save_res := None\<rparr>]"
  have h: "handler ?w = (fst (handler ?w), snd (handler ?w))" by simp
  have u: "2 \<in> set (seen (snd (handler ?w)))" using run_save_fails(2) by simp
  from processed_after_writes_and_save [of ?w _ _ _ _ _ 2 "fst (handler ?w)" "snd (handler ?w)"] h u
  show ?thesis by blast
qed

section \<open>Faults inside the loop and the cleanup (C2)\<close>

text \<open>
  C2, as the specification has it, fails twice. After one message was processed, a failed
  write of the second message's blob ends the run with a fault: UID 1 is in the processed
  set and no flag, move or delete call is issued for it. And a failed persistence call for
  the first message does not abort the iteration: the second message is processed too.
\<close>

theorem write_error_skips_cleanup:
  "fst (handler (inbox [msg 1, (msg 2)\<lparr>eml_put_ok := False\<rparr>])) = Thrown StorageWriteError \<and>
   seen (snd (handler (inbox [msg 1, (msg 2)\<lparr>eml_put_ok := False\<rparr>]))) = [1] \<and>
   mutations (snd (handler (inbox [msg 1, (msg 2)\<lparr>eml_put_ok := False\<rparr>]))) = [] \<and>
   save_res ((msg 1)\<lparr>save_res := None\<rparr>) = None \<and>
   seen (snd (handler (inbox [(msg 1)\<lparr>save_res := None\<rparr>, msg 2]))) = [1, 2]"
  using run_write_fails run_first_save_fails by simp

text \<open>
  C2, amended. A fault inside the loop, such as a StorageWriteError raised by a blob write,
  aborts the iteration over the remaining fetched messages and the run with it: no flag,
  move or delete call is issued, the lock is released and the handler rejects. A
  persistence error does not abort anything: the processed set and the cleanup calls are
  the same whatever the stored procedure answers. Whenever the cleanup is reached, its
  calls are flag-as-seen, move, delete in this order, each on exactly the UIDs of the
  processed set, and all three are made when the handler returns with a processed set that
  is not empty.
\<close>

theorem loop_faults_and_cleanup:
  assumes "handler w = (out, st)"
  shows "(for_await w bucket ds st0 = (Some e, st1) \<longrightarrow>
            for_await w bucket (ds @ rest) st0 = (Some e, st1)) \<and>
         ((\<exists>ev\<in>set (trace st). is_storage_write (fst ev) \<and> \<not> snd ev) \<longrightarrow>
            (\<exists>e. out = Thrown e) \<and> mutations st = [] \<and> (LockRelease, True) \<in> set (trace st)) \<and>
         seen (snd (handler (with_save f w))) = seen st \<and>
         mutations (snd (handler (with_save f w))) = mutations st \<and>
         prefix (map fst (mutations st))
           [MessageFlagsAdd (join_uids (seen st)), MessageMove (join_uids (seen st)),
            MessageDelete (join_uids (seen st))] \<and>
         ((\<exists>r. out = Returned r) \<and> seen st \<noteq> [] \<longrightarrow>
            mutations st = [(MessageFlagsAdd (join_uids (seen st)), True),
                            (MessageMove (join_uids (seen st)), True),
                            (MessageDelete (join_uids (seen st)), True)]) \<and>
         (\<forall>b fault stl.
            (\<exists>ok. (Fetch, ok) \<in> set (trace st)) \<and> email_bucket w = Some b \<and>
            for_await w b (fetch w) (fetching w) = (Some fault, stl) \<longrightarrow>
              out = Thrown fault \<and> mutations st = [] \<and>
              trace st = trace stl @ [(LockRelease, True)])"
proof -
  have "for_await w bucket ds st0 = (Some e, st1) \<longrightarrow>
          for_await w bucket (ds @ rest) st0 = (Some e, st1)"
    by (simp add: for_await_append)
  moreover from handler_with_save(2,3) [of f w] assms
  have "seen (snd (handler (with_save f w))) = seen st"
    and "mutations (snd (handler (with_save f w))) = mutations st" by simp_all
  moreover note handler_summary [OF assms]
  moreover have "\<forall>b fault stl.
      (\<exists>ok. (Fetch, ok) \<in> set (trace st)) \<and> email_bucket w = Some b \<and>
      for_await w b (fetch w) (fetching w) = (Some fault, stl) \<longrightarrow>
        out = Thrown fault \<and> mutations st = [] \<and> trace st = trace stl @ [(LockRelease, True)]"
    using loop_fault_ends_run [OF assms] by blast
  ultimately show ?thesis by blast
qed

theorem loop_faults_and_cleanup_witness:
  "fst (handler (inbox [msg 1, (msg 2)\<lparr>eml_put_ok := False\<rparr>])) = Thrown StorageWriteError \<and>
   (PutObject ''emails'' ''inbound/2025/3/alice/m1.eml'' ''EML'' ''application/octet-stream'', False)
     \<in> set (trace (snd (handler (inbox [msg 1, (msg 2)\<lparr>eml_put_ok := False\<rparr>])))) \<and>
   mutations (snd (handler (inbox [msg 1, (msg 2)\<lparr>eml_put_ok := False\<rparr>]))) = [] \<and>
   (LockRelease, True) \<in> set (trace (snd (handler (inbox [msg 1, (msg 2)\<lparr>eml_put_ok := False\<rparr>])))) \<and>
   fst (handler (inbox [msg 1, (msg 2)\<lparr>save_res := None\<rparr>])) =
     Returned \<lparr>statusCode = 200, headers = [(''Access-Control-Allow-Origin'', ''*'')],
               body = ''{\"success\":true}''\<rparr> \<and>
   seen (snd (handler (inbox [msg 1, (msg 2)\<lparr>save_res := None\<rparr>]))) = [1, 2] \<and>
   mutations (snd (handler (inbox [msg 1, (msg 2)\<lparr>save_res := None\<rparr>]))) =
     [(MessageFlagsAdd (join_uids [1, 2]), True), (MessageMove (join_uids [1, 2]), True),
      (MessageDelete (join_uids [1, 2]), True)]"
proof -
  let ?a = "inbox [msg 1, (msg 2)\<lparr>eml_put_ok := False\<rparr>]"
  let ?b = "inbox [msg 1, (msg 2)\<lparr>save_res := None\<rparr>]"
  have ha: "handler ?a = (fst (handler ?a), snd (handler ?a))" by simp
  have hb: "handler ?b = (fst (handler ?b), snd (handler ?b))" by simp
  have failed: "\<exists>ev\<in>set (trace (snd (handler ?a))). is_storage_write (fst ev) \<and> \<not> snd ev"
    using run_write_fails_event by force
  have returned: "(\<exists>r. fst (handler ?b) = Returned r) \<and> seen (snd (handler ?b)) \<noteq> []"
    using run_save_fails(1,2) by simp
  from loop_faults_and_cleanup [OF ha] failed
  have a: "mutations (snd (handler ?a)) = []" "(LockRelease, True) \<in> set (trace (snd (handler ?a)))"
    by blast+
  from loop_faults_and_cleanup [OF hb] returned
  have b: "mutations (snd (handler ?b)) =
      [(MessageFlagsAdd (join_uids (seen (snd (handler ?b)))), True),
       (MessageMove (join_uids (seen (snd (handler ?b)))), True),
       (MessageDelete (join_uids (seen (snd (handler ?b)))), True)]"
    by blast
  from a b run_write_fails(1) run_write_fails_event run_save_fails(1,2) show ?thesis by simp
qed

section \<open>The lock and the result payload (C3)\<close>

text \<open>
  C3, as the specification has it, fails: with the lock obtained, a message that does not
  parse makes the handler reject; no result payload is returned.
\<close>

theorem decode_error_is_not_caught:
  "handler (inbox [(msg 1)\<lparr>source := ''garbage''\<rparr>]) =
     (Thrown MalformedMessage,
      \<lparr>trace = [(GetImapConfig, True), (Connect, True), (GetMailboxLock, True), (Status, True),
                (GetMySqlConnection, True), (DbConnect, True), (Fetch, True), (LockRelease, True)],
       result = JObject [(''failed'', JBool True)], seen = []\<rparr>)"
  by (rule run_malformed)

text \<open>
  C3, amended. For every run in which the mailbox lock was obtained, the lock is released
  on every exit path, as the last call before the logout or before the fault leaves the
  handler; whether the handler returns a payload or faults, and which, does not depend on
  the persistence errors (they are logged and absorbed). A storage-write error and a decode
  error of a fetched message are not caught: the handler then rejects instead of returning
  a payload.
\<close>

theorem lock_released_on_every_path:
  assumes "handler w = (out, st)" and "(GetMailboxLock, True) \<in> set (trace st)"
  shows "(\<exists>before. trace st = before @ [(LockRelease, True)] \<and> (\<exists>e. out = Thrown e) \<or>
                   trace st = before @ [(LockRelease, True), (Logout, logout_ok w)]) \<and>
         fst (handler (with_save f w)) = out \<and>
         ((\<exists>ev\<in>set (trace st). is_storage_write (fst ev) \<and> \<not> snd ev) \<longrightarrow> (\<exists>e. out = Thrown e)) \<and>
         ((\<exists>ok. (Fetch, ok) \<in> set (trace st)) \<and> (\<exists>d\<in>set (fetch w). \<exists>e. decode w d = Inl e) \<longrightarrow>
            (\<exists>e. out = Thrown e))"
proof (intro conjI)
  from assms(1) show "\<exists>before. trace st = before @ [(LockRelease, True)] \<and> (\<exists>e. out = Thrown e) \<or>
                   trace st = before @ [(LockRelease, True), (Logout, logout_ok w)]"
  proof (cases rule: handler_cases)
    case (no_lock e)
    with assms(2) show ?thesis by simp
  next
    case (fault e st')
    then show ?thesis by (simp add: emit_def)
  next
    case (finished st')
    then show ?thesis by (simp add: emit_def)
  qed
  from handler_with_save(1) [of f w] assms(1) show "fst (handler (with_save f w)) = out" by simp
  from handler_summary [OF assms(1)]
  show "(\<exists>ev\<in>set (trace st). is_storage_write (fst ev) \<and> \<not> snd ev) \<longrightarrow> (\<exists>e. out = Thrown e)"
    by blast
  show "(\<exists>ok. (Fetch, ok) \<in> set (trace st)) \<and> (\<exists>d\<in>set (fetch w). \<exists>e. decode w d = Inl e) \<longrightarrow>
          (\<exists>e. out = Thrown e)"
  proof
    assume "(\<exists>ok. (Fetch, ok) \<in> set (trace st)) \<and> (\<exists>d\<in>set (fetch w). \<exists>e. decode w d = Inl e)"
    then obtain ok d e where f: "(Fetch, ok) \<in> set (trace st)" and d: "d \<in> set (fetch w)"
      and dec: "decode w d = Inl e" by blast
    from assms(1) show "\<exists>e. out = Thrown e"
    proof (cases rule: handler_paths)
      case outside
      with f show ?thesis by fastforce
    next
      case (loop_fault bucket e stl)
      then show ?thesis by simp
    next
      case (fetch_fault bucket stl)
      then show ?thesis by simp
    next
      case (cleanup_fault bucket stl e stf)
      then show ?thesis by simp
    next
      case (completed bucket stl stf)
      from for_await_decoded [OF completed(3) d] dec show ?thesis by simp
    qed
  qed
qed

theorem lock_released_on_every_path_witness:
  "(GetMailboxLock, True) \<in> set (trace (snd (handler (inbox [msg 1, (msg 2)\<lparr>save_res := None\<rparr>])))) \<and>
   fst (handler (inbox [msg 1, (msg 2)\<lparr>save_res := None\<rparr>])) =
     Returned \<lparr>statusCode = 200, headers = [(''Access-Control-Allow-Origin'', ''*'')],
               body = ''{\"success\":true}''\<rparr> \<and>
   fst (handler (with_save (\<lambda>d. None) (inbox [msg 1, (msg 2)\<lparr>save_res := None\<rparr>]))) =
     Returned \<lparr>statusCode = 200, headers = [(''Access-Control-Allow-Origin'', ''*'')],
               body = ''{\"success\":true}''\<rparr> \<and>
   (\<exists>before. trace (snd (handler (inbox [msg 1, (msg 2)\<lparr>save_res := None\<rparr>]))) =
               before @ [(LockRelease, True), (Logout, True)])"
proof -
  let ?w = "inbox [msg 1, (msg 2)\<lparr>save_res := None\<rparr>]"
  have h: "handler ?w = (fst (handler ?w), snd (handler ?w))" by simp
  have l: "(GetMailboxLock, True) \<in> set (trace (snd (handler ?w)))"
    by (simp add: run_defs world_defs)
  have lo: "logout_ok ?w" by (simp add: inbox_def)
  note t = lock_released_on_every_path [OF h l, of "\<lambda>d. None"]
  from t have a: "fst (handler (with_save (\<lambda>d. None) ?w)) = fst (handler ?w)" by blast
  from t have "\<exists>before. trace (snd (handler ?w)) = before @ [(LockRelease, True)] \<and>
                  (\<exists>e. fst (handler ?w) = Thrown e) \<or>
               trace (snd (handler ?w)) = before @ [(LockRelease, True), (Logout, logout_ok ?w)]"
    by blast
  with run_save_fails(1) lo
  have b: "\<exists>before. trace (snd (handler ?w)) = before @ [(LockRelease, True), (Logout, True)]"
    by auto
  from l a b run_save_fails(1) show ?thesis by simp
qed

section \<open>An empty mailbox (C4)\<close>

text \<open>
  C4, as the specification has it, fails: on an empty mailbox the result object has
  \<^verbatim>\<open>success:false\<close>.
\<close>

theorem empty_mailbox_marks_failure:
  "status_messages (inbox []) = Some 0 \<and>
   field (result (snd (handler (inbox [])))) ''success'' = Some (JBool False) \<and>
   field (result (snd (handler (inbox [])))) ''error'' = Some (JString ''No messages in INBOX'')"
  by (simp add: run_empty field_def) (simp add: inbox_def)

text \<open>
  C4, amended. For every run in which the mailbox status reports zero messages, the result
  is \<^verbatim>\<open>{success:false, error:'No messages in INBOX'}\<close>, returned with status 200
  once the logout succeeds, and no blob-storage write and no data-store call is made in
  that run.
\<close>

theorem empty_mailbox:
  assumes "handler w = (out, st)" and "(Status, True) \<in> set (trace st)"
    and "status_messages w = Some 0"
  shows "result st = result_failure ''No messages in INBOX'' \<and>
         (\<forall>ev\<in>set (trace st). \<not> is_storage_write (fst ev) \<and> \<not> is_data_store_call (fst ev)) \<and>
         (logout_ok w \<longrightarrow>
            out = Returned \<lparr>statusCode = 200, headers = [(''Access-Control-Allow-Origin'', ''*'')],
                            body = JSON_stringify w (result_failure ''No messages in INBOX'')\<rparr>)"
  using assms(1)
proof (cases rule: handler_cases)
  case (no_lock e)
  with assms(2) show ?thesis by auto
next
  case (fault e st')
  from fault(1) assms(3) show ?thesis by (cases rule: try_block_cases) simp_all
next
  case (finished st')
  from finished(1) assms(3) have "st' = (emit (Status, True) lock_held)\<lparr>result := result_failure ''No messages in INBOX''\<rparr>"
    by (cases rule: try_block_cases) simp_all
  with finished show ?thesis by (simp add: emit_def lock_held_def)
qed

theorem empty_mailbox_witness:
  "(Status, True) \<in> set (trace (snd (handler (inbox [])))) \<and>
   status_messages (inbox []) = Some 0 \<and>
   result (snd (handler (inbox []))) = result_failure ''No messages in INBOX'' \<and>
   list_all (\<lambda>ev. \<not> is_storage_write (fst ev) \<and> \<not> is_data_store_call (fst ev))
     (trace (snd (handler (inbox [])))) \<and>
   fst (handler (inbox [])) =
     Returned \<lparr>statusCode = 200, headers = [(''Access-Control-Allow-Origin'', ''*'')],
               body = JSON_stringify (inbox []) (result_failure ''No messages in INBOX'')\<rparr>"
proof -
  have h: "handler (inbox []) = (fst (handler (inbox [])), snd (handler (inbox [])))" by simp
  have s: "(Status, True) \<in> set (trace (snd (handler (inbox []))))" by (simp add: run_empty)
  have z: "status_messages (inbox []) = Some 0" and l: "logout_ok (inbox [])"
    by (simp_all add: inbox_def)
  from empty_mailbox [OF h s z] s z l show ?thesis unfolding list_all_iff by blast
qed

section \<open>A missing bucket name (C5)\<close>

text \<open>
  C5, as the specification has it, fails: the bucket name is read inside the branch of a
  connected data store, so when its absence is found the mailbox has been connected to,
  locked and asked for its status.
\<close>

theorem missing_bucket_found_after_mailbox_calls:
  "email_bucket ((inbox [msg 1])\<lparr>email_bucket := None\<rparr>) = None \<and>
   handler ((inbox [msg 1])\<lparr>email_bucket := None\<rparr>) =
     (Thrown ConfigurationError,
      \<lparr>trace = [(GetImapConfig, True), (Connect, True), (GetMailboxLock, True), (Status, True),
                (GetMySqlConnection, True), (DbConnect, True), (LockRelease, True)],
       result = JObject [(''failed'', JBool True)], seen = []\<rparr>)"
  using run_no_bucket by simp

text \<open>
  C5, amended. For every run in which the blob bucket name is absent (or empty), no
  message is fetched, no blob is written, no record is persisted and the mailbox is not
  mutated; the run fails with a ConfigurationError exactly when it got as far as a connected
  data store, which is after the mailbox connect, lock and status check, and it then
  releases the lock and makes no further call.
\<close>

theorem missing_bucket:
  assumes "handler w = (out, st)" and "email_bucket w = None \<or> email_bucket w = Some []"
  shows "(\<forall>ev\<in>set (trace st). fst ev \<noteq> Fetch \<and> \<not> loop_call (fst ev) \<and> \<not> is_mutation (fst ev)) \<and>
         ((DbConnect, True) \<in> set (trace st) \<longleftrightarrow> out = Thrown ConfigurationError) \<and>
         (out = Thrown ConfigurationError \<longrightarrow>
            trace st = [(GetImapConfig, True), (Connect, True), (GetMailboxLock, True), (Status, True),
                        (GetMySqlConnection, True), (DbConnect, True), (LockRelease, True)])"
  using assms(1)
proof (cases rule: handler_cases)
  case (no_lock e)
  from no_lock(3) have "\<forall>ev\<in>set (trace st). fst ev \<noteq> Fetch \<and> \<not> loop_call (fst ev) \<and> \<not> is_mutation (fst ev)"
    by (auto simp: loop_call_def)
  moreover from no_lock(3) have "(DbConnect, True) \<notin> set (trace st)" by fastforce
  moreover from no_lock(1,5) have "out \<noteq> Thrown ConfigurationError" by auto
  ultimately show ?thesis by simp
next
  case (fault e st')
  from fault(1) assms(2) show ?thesis
    by (cases rule: try_block_cases)
       (use fault in \<open>auto simp: emit_def lock_held_def connected_def loop_call_def\<close>)
next
  case (finished st')
  from finished(1) assms(2) show ?thesis
    by (cases rule: try_block_cases)
       (use finished in \<open>auto simp: emit_def lock_held_def connected_def loop_call_def\<close>)
qed

theorem missing_bucket_witness:
  "email_bucket ((inbox [msg 1])\<lparr>email_bucket := None\<rparr>) = None \<and>
   fst (handler ((inbox [msg 1])\<lparr>email_bucket := None\<rparr>)) = Thrown ConfigurationError \<and>
   (DbConnect, True) \<in> set (trace (snd (handler ((inbox [msg 1])\<lparr>email_bucket := None\<rparr>)))) \<and>
   list_all (\<lambda>ev. fst ev \<noteq> Fetch \<and> \<not> loop_call (fst ev) \<and> \<not> is_mutation (fst ev))
     (trace (snd (handler ((inbox [msg 1])\<lparr>email_bucket := None\<rparr>))))"
proof -
  let ?w = "(inbox [msg 1])\<lparr>email_bucket := None\<rparr>"
  have h: "handler ?w = (fst (handler ?w), snd (handler ?w))" by simp
  have b: "email_bucket ?w = None \<or> email_bucket ?w = Some []" by simp
  have d: "(DbConnect, True) \<in> set (trace (snd (handler ?w)))" using run_no_bucket by simp
  from missing_bucket [OF h b] d b show ?thesis unfolding list_all_iff by auto
qed

section \<open>An unreachable data store (C6)\<close>

text \<open>
  C6. For every run in which the connection to the data store is attempted and cannot be
  established, no flag-as-seen, move or delete call is issued, the mailbox lock is
  released, and the result is
  \<^verbatim>\<open>{success:false, error:'Could not connect to MySQL database'}\<close>, which the handler
  returns once the logout succeeds.
\<close>

theorem data_store_unreachable:
  assumes "handler w = (out, st)" and "(DbConnect, False) \<in> set (trace st)"
  shows "mutations st = [] \<and> (LockRelease, True) \<in> set (trace st) \<and>
         result st = result_failure ''Could not connect to MySQL database'' \<and>
         (logout_ok w \<longrightarrow>
            out = Returned \<lparr>statusCode = 200, headers = [(''Access-Control-Allow-Origin'', ''*'')],
                            body = JSON_stringify w
                                     (result_failure ''Could not connect to MySQL database'')\<rparr>)"
proof -
  have not_inbox: False
    if "process_inbox w bucket connected = (r, st')" and "(DbConnect, False) \<in> set (trace st')"
    for bucket r st'
  proof -
    from process_inbox_trace [OF that(1)] obtain evs where
      "trace st' = trace connected @ evs"
      "\<forall>ev\<in>set evs. fst ev = Fetch \<or> loop_call (fst ev) \<or> is_mutation (fst ev) \<or> fst ev = DbEnd"
      by blast
    with that(2) show False by (auto simp: connected_def lock_held_def loop_call_def)
  qed
  from assms(1) show ?thesis
  proof (cases rule: handler_cases)
    case (no_lock e)
    with assms(2) show ?thesis by auto
  next
    case (fault e st')
    from fault(1) show ?thesis
    proof (cases rule: try_block_cases)
      case (inbox n bucket)
      with fault assms(2) not_inbox [OF inbox(7)] show ?thesis by (simp add: emit_def)
    qed (use fault assms(2) in \<open>auto simp: emit_def lock_held_def connected_def\<close>)
  next
    case (finished st')
    from finished(1) show ?thesis
    proof (cases rule: try_block_cases)
      case (inbox n bucket)
      with finished assms(2) not_inbox [OF inbox(7)] show ?thesis by (simp add: emit_def)
    qed (use finished assms(2) in \<open>auto simp: emit_def lock_held_def connected_def mutations_def\<close>)
  qed
qed

theorem data_store_unreachable_witness:
  "handler ((inbox [msg 1])\<lparr>db_connect_ok := False\<rparr>) =
     (fst (handler ((inbox [msg 1])\<lparr>db_connect_ok := False\<rparr>)),
      snd (handler ((inbox [msg 1])\<lparr>db_connect_ok := False\<rparr>))) \<and>
   (DbConnect, False) \<in> set (trace (snd (handler ((inbox [msg 1])\<lparr>db_connect_ok := False\<rparr>)))) \<and>
   logout_ok ((inbox [msg 1])\<lparr>db_connect_ok := False\<rparr>) \<and>
   mutations (snd (handler ((inbox [msg 1])\<lparr>db_connect_ok := False\<rparr>))) = [] \<and>
   (LockRelease, True) \<in> set (trace (snd (handler ((inbox [msg 1])\<lparr>db_connect_ok := False\<rparr>)))) \<and>
   result (snd (handler ((inbox [msg 1])\<lparr>db_connect_ok := False\<rparr>))) =
     result_failure ''Could not connect to MySQL database'' \<and>
   fst (handler ((inbox [msg 1])\<lparr>db_connect_ok := False\<rparr>)) =
     Returned \<lparr>statusCode = 200, headers = [(''Access-Control-Allow-Origin'', ''*'')],
               body = JSON_stringify ((inbox [msg 1])\<lparr>db_connect_ok := False\<rparr>)
                        (result_failure ''Could not connect to MySQL database'')\<rparr>"
proof -
  let ?w = "(inbox [msg 1])\<lparr>db_connect_ok := False\<rparr>"
  have h: "handler ?w = (fst (handler ?w), snd (handler ?w))" by simp
  have a: "(DbConnect, False) \<in> set (trace (snd (handler ?w)))" using run_db_down by simp
  have l: "logout_ok ?w" by (simp add: inbox_def)
  from data_store_unreachable [OF h a] h a l show ?thesis by blast
qed

section \<open>The terminal result (C7)\<close>

text \<open>
  C7, as the specification has it, fails: a run that processed two messages ends with the
  result \<^verbatim>\<open>{success:true}\<close>, which has no \<^verbatim>\<open>processedCount\<close> field.
\<close>

theorem success_result_without_count:
  "seen (snd (handler (inbox [msg 1, msg 2]))) = [1, 2] \<and>
   result (snd (handler (inbox [msg 1, msg 2]))) = JObject [(''success'', JBool True)] \<and>
   field (result (snd (handler (inbox [msg 1, msg 2])))) ''processedCount'' = None"
  using run_two by (simp add: field_def)

text \<open>
  C7, amended. For every run that returns, the terminal result is exactly one of
  \<^verbatim>\<open>{success:true}\<close> (the loop and the cleanup were completed; the object carries
  no count), \<^verbatim>\<open>{success:false, error:'Could not connect to MySQL database'}\<close>
  (messages were reported and the connection failed) and
  \<^verbatim>\<open>{success:false, error:'No messages in INBOX'}\<close> (no message was reported).
\<close>

theorem terminal_result:
  assumes "handler w = (Returned r, st)"
  shows "(result st = result_success \<and> field (result st) ''processedCount'' = None \<and>
            db_connect_ok w \<and> status_messages w \<noteq> Some 0) \<or>
         (result st = result_failure ''Could not connect to MySQL database'' \<and>
            \<not> db_connect_ok w \<and> status_messages w \<noteq> Some 0) \<or>
         (result st = result_failure ''No messages in INBOX'' \<and> status_messages w = Some 0)"
  using assms
proof (cases rule: handler_cases)
  case (finished st')
  then have st: "result st = result st'" by (simp add: emit_def)
  from finished(1) show ?thesis
  proof (cases rule: try_block_cases)
    case (inbox n bucket)
    from process_inbox_result [OF inbox(7)] inbox st show ?thesis
      by (simp add: result_success_def field_def)
  qed (use st in \<open>simp_all add: emit_def\<close>)
qed simp_all

theorem terminal_result_witness:
  "handler ((inbox [msg 1])\<lparr>db_connect_ok := False\<rparr>) =
     (Returned \<lparr>statusCode = 200, headers = [(''Access-Control-Allow-Origin'', ''*'')],
                body = ''{\"success\":false,\"error\":\"Could not connect to MySQL database\"}''\<rparr>,
      \<lparr>trace = [(GetImapConfig, True), (Connect, True), (GetMailboxLock, True), (Status, True),
                (GetMySqlConnection, True), (DbConnect, False), (LockRelease, True), (Logout, True)],
       result = JObject [(''success'', JBool False),
                         (''error'', JString ''Could not connect to MySQL database'')],
       seen = []\<rparr>) \<and>
   JObject [(''success'', JBool False), (''error'', JString ''Could not connect to MySQL database'')] =
     result_failure ''Could not connect to MySQL database''"
  using terminal_result [OF run_db_down] run_db_down by (simp add: result_failure_def)

section \<open>The folder key (C8)\<close>




section \<open>Attachment names (C9)\<close>




section \<open>The response (C10)\<close>

text \<open>
  C10. Whenever the handler returns (does not throw), the object it returns has status code
  200, the one CORS header, and as body the JSON serialisation of the result object the
  handler holds at that point, also when that result marks a failure.
\<close>

theorem handler_returns_200:
  assumes "handler w = (Returned r, st)"
  shows "statusCode r = 200 \<and> headers r = [(''Access-Control-Allow-Origin'', ''*'')] \<and>
         body r = JSON_stringify w (result st)"
  using assms
proof (cases rule: handler_cases)
  case (finished st')
  then show ?thesis by (auto simp: emit_def split: if_splits)
qed simp_all

theorem handler_returns_200_witness:
  "handler (inbox []) =
     (Returned \<lparr>statusCode = 200, headers = [(''Access-Control-Allow-Origin'', ''*'')],
                body = ''{\"success\":false,\"error\":\"No messages in INBOX\"}''\<rparr>,
      \<lparr>trace = [(GetImapConfig, True), (Connect, True), (GetMailboxLock, True), (Status, True),
                (LockRelease, True), (Logout, True)],
       result = JObject [(''success'', JBool False), (''error'', JString ''No messages in INBOX'')],
       seen = []\<rparr>) \<and>
   statusCode \<lparr>statusCode = 200, headers = [(''Access-Control-Allow-Origin'', ''*'')],
                body = ''{\"success\":false,\"error\":\"No messages in INBOX\"}''\<rparr> = 200 \<and>
   ''{\"success\":false,\"error\":\"No messages in INBOX\"}'' =
     JSON_stringify (inbox [])
       (JObject [(''success'', JBool False), (''error'', JString ''No messages in INBOX'')])"
  using handler_returns_200 [OF run_empty] run_empty by simp

end
